theory Spec2Isabelle
  imports Main "HOL-Library.Word"
begin

unbundle bit_operations_syntax

section \<open>Configuration constants of mqtt_operations.c\<close>

definition CONNECTION_RETRY_MAX_ATTEMPTS :: nat where
  "CONNECTION_RETRY_MAX_ATTEMPTS = 5"

definition CONNECTION_RETRY_MAX_BACKOFF_DELAY_MS :: nat where
  "CONNECTION_RETRY_MAX_BACKOFF_DELAY_MS = 5000"

definition CONNECTION_RETRY_BACKOFF_BASE_MS :: nat where
  "CONNECTION_RETRY_BACKOFF_BASE_MS = 500"

definition MAX_OUTGOING_PUBLISHES :: nat where
  "MAX_OUTGOING_PUBLISHES = 5"

definition MQTT_PACKET_ID_INVALID :: "16 word" where
  "MQTT_PACKET_ID_INVALID = 0"

section \<open>Data model\<close>

text \<open>
  The types of the coreMQTT library that the demo stores or inspects. Of the status enum
  the demo names only \<open>MQTTSuccess\<close> and \<open>MQTTNeedMoreBytes\<close>; every other status
  of the library is \<open>MQTTOtherStatus n\<close>.
\<close>

datatype MQTTStatus = MQTTSuccess | MQTTNeedMoreBytes | MQTTOtherStatus nat

datatype MQTTQoS = MQTTQoS0 | MQTTQoS1 | MQTTQoS2

text \<open>
  \<open>MQTTPublishInfo_t\<close>. The two borrowed buffers are pointers in the source: \<open>None\<close> is
  the null pointer, \<open>Some bs\<close> a pointer to the bytes \<open>bs\<close>.
\<close>

record MQTTPublishInfo =
  qos :: MQTTQoS
  retain :: bool
  dup :: bool
  pTopicName :: "string option"
  topicNameLength :: "16 word"
  pPayload :: "string option"
  payloadLength :: nat

text \<open>\<open>PublishPackets_t\<close>: one slot of the outgoing-publish table.\<close>

record PublishPackets =
  packetId :: "16 word"
  pubInfo :: MQTTPublishInfo

text \<open>What \<open>memset( ..., 0x00, ... )\<close> leaves in a publish info and in a slot.\<close>

definition zeroPublishInfo :: MQTTPublishInfo where
  "zeroPublishInfo =
     \<lparr> qos = MQTTQoS0, retain = False, dup = False, pTopicName = None,
       topicNameLength = 0, pPayload = None, payloadLength = 0 \<rparr>"

definition zeroPublishPackets :: PublishPackets where
  "zeroPublishPackets = \<lparr> packetId = 0, pubInfo = zeroPublishInfo \<rparr>"

text \<open>The fields of \<open>MQTTPacketInfo_t\<close> and \<open>MQTTDeserializedInfo_t\<close> that the callback reads.\<close>

record MQTTPacketInfo =
  type :: "8 word"

record MQTTDeserializedInfo =
  packetIdentifier :: "16 word"
  pPublishInfo :: "MQTTPublishInfo option"

text \<open>
  The file-scope variables of mqtt_operations.c, together with the observable effects of
  the calls into the collaborators: \<open>publishLog\<close> holds the arguments of every
  \<open>MQTT_Publish\<close> call in call order, \<open>packetIdsIssued\<close> counts the
  \<open>MQTT_GetPacketId\<close> calls, \<open>seedLog\<close> holds the argument of every \<open>srand\<close> call,
  \<open>randCount\<close> counts the \<open>rand\<close> calls since the last \<open>srand\<close>, \<open>sleepLog\<close> holds
  the argument of every \<open>Clock_SleepMs\<close> call, \<open>tlsAttempts\<close> counts the
  \<open>Openssl_Connect\<close> calls, \<open>deliveredLog\<close> holds the arguments of every call of the
  application publish callback, and \<open>callbackLog\<close> holds the packets that
  \<open>MQTT_ProcessLoop\<close> has handed to \<open>mqttCallback\<close>, in order.
\<close>

record demo_state =
  globalAckPacketIdentifier :: "16 word"
  globalSubscribePacketIdentifier :: "16 word"
  globalUnsubscribePacketIdentifier :: "16 word"
  outgoingPublishPackets :: "PublishPackets list"
  mqttSessionEstablished :: bool
  appPublishCallback :: "nat option"
  publishLog :: "(MQTTPublishInfo \<times> 16 word) list"
  packetIdsIssued :: nat
  seedLog :: "32 word list"
  randCount :: nat
  sleepLog :: "nat list"
  tlsAttempts :: nat
  deliveredLog :: "(MQTTPublishInfo \<times> 16 word) list"
  callbackLog :: "(MQTTPacketInfo \<times> MQTTDeserializedInfo) list"

text \<open>The state at program start: every static is zero-initialised, nothing has happened.\<close>

definition initialState :: demo_state where
  "initialState =
     \<lparr> globalAckPacketIdentifier = 0, globalSubscribePacketIdentifier = 0,
       globalUnsubscribePacketIdentifier = 0,
       outgoingPublishPackets = replicate MAX_OUTGOING_PUBLISHES zeroPublishPackets,
       mqttSessionEstablished = False, appPublishCallback = None,
       publishLog = [], packetIdsIssued = 0, seedLog = [], randCount = 0,
       sleepLog = [], tlsAttempts = 0, deliveredLog = [], callbackLog = [] \<rparr>"

text \<open>
  A failed \<open>assert\<close> aborts the program (\<open>AssertionFailed\<close>). \<open>ScriptExhausted\<close>: a loop
  that polls the network asked for one more step than the environment was given.
\<close>

datatype error = AssertionFailed | ScriptExhausted

section \<open>The outgoing-publish table\<close>

text \<open>
  The \<open>for\<close> loop of \<open>getNextFreeIndexForOutgoingPublishes\<close>, from \<open>index\<close> on; it
  returns \<open>returnStatus\<close> and the value of \<open>index\<close> at loop exit. The index is a
  \<open>uint8_t\<close> that never exceeds 5, so it does not wrap.
\<close>

function getNextFreeIndex_loop :: "PublishPackets list \<Rightarrow> nat \<Rightarrow> bool \<times> nat" where
  "getNextFreeIndex_loop tbl index =
     (if index < MAX_OUTGOING_PUBLISHES
      then (if packetId (tbl ! index) = MQTT_PACKET_ID_INVALID
            then (True, index)
            else getNextFreeIndex_loop tbl (index + 1))
      else (False, index))"
  by pat_completeness auto
termination
  by (relation "measure (\<lambda>(tbl, index). MAX_OUTGOING_PUBLISHES - index)") auto

declare getNextFreeIndex_loop.simps [simp del]

text \<open>
  \<open>getNextFreeIndexForOutgoingPublishes( pIndex )\<close>: the second argument is the value of
  \<open>*pIndex\<close> before the call, the second result its value after.
\<close>

definition getNextFreeIndexForOutgoingPublishes :: "demo_state \<Rightarrow> nat \<Rightarrow> bool \<times> nat" where
  "getNextFreeIndexForOutgoingPublishes st pIndex =
     (case getNextFreeIndex_loop (outgoingPublishPackets st) 0 of
        (returnStatus, index) \<Rightarrow> (returnStatus, if returnStatus then index else pIndex))"

definition cleanupOutgoingPublishAt :: "nat \<Rightarrow> demo_state \<Rightarrow> error + demo_state" where
  "cleanupOutgoingPublishAt index st =
     (if \<not> index < MAX_OUTGOING_PUBLISHES then Inl AssertionFailed
      else Inr (st\<lparr>outgoingPublishPackets :=
                    (outgoingPublishPackets st)[index := zeroPublishPackets]\<rparr>))"

definition cleanupOutgoingPublishes :: "demo_state \<Rightarrow> demo_state" where
  "cleanupOutgoingPublishes st =
     st\<lparr>outgoingPublishPackets := replicate MAX_OUTGOING_PUBLISHES zeroPublishPackets\<rparr>"

text \<open>The \<open>for\<close> loop of \<open>cleanupOutgoingPublishWithPacketID\<close>, from \<open>index\<close> on.\<close>

function cleanupWithPacketID_loop :: "16 word \<Rightarrow> nat \<Rightarrow> demo_state \<Rightarrow> error + demo_state" where
  "cleanupWithPacketID_loop pid index st =
     (if index < MAX_OUTGOING_PUBLISHES
      then (if packetId (outgoingPublishPackets st ! index) = pid
            then cleanupOutgoingPublishAt index st
            else cleanupWithPacketID_loop pid (index + 1) st)
      else Inr st)"
  by pat_completeness auto
termination
  by (relation "measure (\<lambda>(pid, index, st). MAX_OUTGOING_PUBLISHES - index)") auto

declare cleanupWithPacketID_loop.simps [simp del]

definition cleanupOutgoingPublishWithPacketID :: "16 word \<Rightarrow> demo_state \<Rightarrow> error + demo_state" where
  "cleanupOutgoingPublishWithPacketID pid st =
     (if pid = MQTT_PACKET_ID_INVALID then Inl AssertionFailed
      else cleanupWithPacketID_loop pid 0 st)"

section \<open>The collaborators\<close>

text \<open>
  The codec (coreMQTT), the transport (OpenSSL), the C library and the clock are outside
  mqtt_operations.c. Their answers are parameters of the model:
  \<^item> \<open>publishStatus n\<close>: the status returned by \<open>MQTT_Publish\<close> at its call number \<open>n\<close>
    (counting from 0 over the whole run);
  \<^item> \<open>packetIdSource n\<close>: the value returned by \<open>MQTT_GetPacketId\<close> at its call number \<open>n\<close>;
  \<^item> \<open>tlsConnectOk n\<close>: whether \<open>Openssl_Connect\<close> call number \<open>n\<close> returned \<open>OPENSSL_SUCCESS\<close>;
  \<^item> \<open>libcRand seeds n\<close>: the value of \<open>rand()\<close> at its call number \<open>n\<close> since the last
    \<open>srand\<close>, after the \<open>srand\<close> calls \<open>seeds\<close>;
  \<^item> \<open>clockNsec n\<close>: the \<open>tv_nsec\<close> field that \<open>clock_gettime\<close> stores when \<open>n\<close> seedings
    have been made before;
  \<^item> \<open>initStatus\<close>, \<open>initStatefulQoSStatus\<close>, \<open>connectStatus\<close>: the statuses of \<open>MQTT_Init\<close>,
    \<open>MQTT_InitStatefulQoS\<close> and \<open>MQTT_Connect\<close>, and \<open>connectSessionPresent\<close> the flag
    \<open>MQTT_Connect\<close> stores in \<open>sessionPresent\<close>.
\<close>

record collaborators =
  publishStatus :: "nat \<Rightarrow> MQTTStatus"
  packetIdSource :: "nat \<Rightarrow> 16 word"
  tlsConnectOk :: "nat \<Rightarrow> bool"
  libcRand :: "32 word list \<Rightarrow> nat \<Rightarrow> 32 word"
  clockNsec :: "nat \<Rightarrow> int"
  initStatus :: MQTTStatus
  initStatefulQoSStatus :: MQTTStatus
  connectStatus :: MQTTStatus
  connectSessionPresent :: bool

definition MQTT_Publish ::
  "collaborators \<Rightarrow> MQTTPublishInfo \<Rightarrow> 16 word \<Rightarrow> demo_state \<Rightarrow> MQTTStatus \<times> demo_state" where
  "MQTT_Publish env info pid st =
     (publishStatus env (length (publishLog st)),
      st\<lparr>publishLog := publishLog st @ [(info, pid)]\<rparr>)"

definition MQTT_GetPacketId :: "collaborators \<Rightarrow> demo_state \<Rightarrow> 16 word \<times> demo_state" where
  "MQTT_GetPacketId env st =
     (packetIdSource env (packetIdsIssued st), st\<lparr>packetIdsIssued := packetIdsIssued st + 1\<rparr>)"

definition srand :: "32 word \<Rightarrow> demo_state \<Rightarrow> demo_state" where
  "srand seed st = st\<lparr>seedLog := seedLog st @ [seed], randCount := 0\<rparr>"

definition generateRandomNumber :: "collaborators \<Rightarrow> demo_state \<Rightarrow> 32 word \<times> demo_state" where
  "generateRandomNumber env st =
     (libcRand env (seedLog st) (randCount st), st\<lparr>randCount := randCount st + 1\<rparr>)"

definition Openssl_Connect :: "collaborators \<Rightarrow> demo_state \<Rightarrow> bool \<times> demo_state" where
  "Openssl_Connect env st = (tlsConnectOk env (tlsAttempts st), st\<lparr>tlsAttempts := tlsAttempts st + 1\<rparr>)"

definition Clock_SleepMs :: "nat \<Rightarrow> demo_state \<Rightarrow> demo_state" where
  "Clock_SleepMs ms st = st\<lparr>sleepLog := sleepLog st @ [ms]\<rparr>"

section \<open>Resending and publishing\<close>

text \<open>
  The \<open>for\<close> loop of \<open>handlePublishResend\<close>, from \<open>index\<close> on; it returns the value of
  \<open>index\<close> at loop exit, which a \<open>break\<close> leaves below \<open>MAX_OUTGOING_PUBLISHES\<close>.
\<close>

function handlePublishResend_loop :: "collaborators \<Rightarrow> nat \<Rightarrow> demo_state \<Rightarrow> nat \<times> demo_state" where
  "handlePublishResend_loop env index st =
     (if index < MAX_OUTGOING_PUBLISHES
      then (if packetId (outgoingPublishPackets st ! index) \<noteq> MQTT_PACKET_ID_INVALID
            then (let slot = outgoingPublishPackets st ! index;
                      slot' = slot\<lparr>pubInfo := (pubInfo slot)\<lparr>dup := True\<rparr>\<rparr>;
                      st1 = st\<lparr>outgoingPublishPackets := (outgoingPublishPackets st)[index := slot']\<rparr>
                  in case MQTT_Publish env (pubInfo slot') (packetId slot') st1 of
                       (mqttStatus, st2) \<Rightarrow>
                         if mqttStatus \<noteq> MQTTSuccess then (index, st2)
                         else handlePublishResend_loop env (index + 1) st2)
            else handlePublishResend_loop env (index + 1) st)
      else (index, st))"
  by pat_completeness auto
termination
  by (relation "measure (\<lambda>(env, index, st). MAX_OUTGOING_PUBLISHES - index)") auto

declare handlePublishResend_loop.simps [simp del]

definition handlePublishResend :: "collaborators \<Rightarrow> demo_state \<Rightarrow> bool \<times> demo_state" where
  "handlePublishResend env st =
     (case handlePublishResend_loop env 0 st of
        (index, st') \<Rightarrow> (index = MAX_OUTGOING_PUBLISHES, st'))"

text \<open>
  \<open>PublishToTopic\<close>. The two \<open>assert\<close>s on the topic come first; the slot is filled field
  by field, then the identifier is stored and the packet sent.
\<close>

definition PublishToTopic ::
  "collaborators \<Rightarrow> string option \<Rightarrow> 16 word \<Rightarrow> string option \<Rightarrow> nat \<Rightarrow> demo_state
     \<Rightarrow> error + (bool \<times> demo_state)" where
  "PublishToTopic env pTopicFilter topicFilterLength pPayloadArg payloadLengthArg st =
     (if pTopicFilter = None \<or> \<not> 0 < topicFilterLength then Inl AssertionFailed
      else case getNextFreeIndexForOutgoingPublishes st MAX_OUTGOING_PUBLISHES of
        (returnStatus, publishIndex) \<Rightarrow>
          if returnStatus = False then Inr (False, st)
          else
            (let slot = outgoingPublishPackets st ! publishIndex;
                 info = (pubInfo slot)\<lparr>qos := MQTTQoS1, pTopicName := pTopicFilter,
                          topicNameLength := topicFilterLength, pPayload := pPayloadArg,
                          payloadLength := payloadLengthArg\<rparr>
             in case MQTT_GetPacketId env st of
               (newId, st1) \<Rightarrow>
                 (let slot' = slot\<lparr>packetId := newId, pubInfo := info\<rparr>;
                      st2 = st1\<lparr>outgoingPublishPackets :=
                                   (outgoingPublishPackets st1)[publishIndex := slot']\<rparr>
                  in case MQTT_Publish env (pubInfo slot') (packetId slot') st2 of
                    (mqttStatus, st3) \<Rightarrow>
                      if mqttStatus \<noteq> MQTTSuccess
                      then (case cleanupOutgoingPublishAt publishIndex st3 of
                              Inl e \<Rightarrow> Inl e
                            | Inr st4 \<Rightarrow> Inr (False, st4))
                      else Inr (True, st3))))"

section \<open>Incoming packets\<close>

text \<open>
  The control packet types of MQTT 3.1.1 that \<open>mqttCallback\<close> compares with (the values
  of coreMQTT's serializer header).
\<close>

definition MQTT_PACKET_TYPE_PUBLISH :: "8 word" where
  "MQTT_PACKET_TYPE_PUBLISH = 0x30"

definition MQTT_PACKET_TYPE_PUBACK :: "8 word" where
  "MQTT_PACKET_TYPE_PUBACK = 0x40"

definition MQTT_PACKET_TYPE_SUBACK :: "8 word" where
  "MQTT_PACKET_TYPE_SUBACK = 0x90"

definition MQTT_PACKET_TYPE_UNSUBACK :: "8 word" where
  "MQTT_PACKET_TYPE_UNSUBACK = 0xB0"

definition MQTT_PACKET_TYPE_PINGRESP :: "8 word" where
  "MQTT_PACKET_TYPE_PINGRESP = 0xD0"

definition mqttCallback ::
  "MQTTPacketInfo \<Rightarrow> MQTTDeserializedInfo \<Rightarrow> demo_state \<Rightarrow> error + demo_state" where
  "mqttCallback pPacketInfo pDeserializedInfo st =
     (let packetIdentifier = packetIdentifier pDeserializedInfo in
      if (type pPacketInfo AND 0xF0) = MQTT_PACKET_TYPE_PUBLISH
      then (case pPublishInfo pDeserializedInfo of
              None \<Rightarrow> Inl AssertionFailed
            | Some info \<Rightarrow>
                (if appPublishCallback st \<noteq> None
                 then Inr (st\<lparr>deliveredLog := deliveredLog st @ [(info, packetIdentifier)]\<rparr>)
                 else Inr st))
      else if type pPacketInfo = MQTT_PACKET_TYPE_SUBACK
      then (if globalSubscribePacketIdentifier st \<noteq> packetIdentifier then Inl AssertionFailed
            else Inr (st\<lparr>globalAckPacketIdentifier := packetIdentifier\<rparr>))
      else if type pPacketInfo = MQTT_PACKET_TYPE_UNSUBACK
      then (if globalUnsubscribePacketIdentifier st \<noteq> packetIdentifier then Inl AssertionFailed
            else Inr (st\<lparr>globalAckPacketIdentifier := packetIdentifier\<rparr>))
      else if type pPacketInfo = MQTT_PACKET_TYPE_PINGRESP
      then Inr st
      else if type pPacketInfo = MQTT_PACKET_TYPE_PUBACK
      then cleanupOutgoingPublishWithPacketID packetIdentifier
             (st\<lparr>globalAckPacketIdentifier := packetIdentifier\<rparr>)
      else Inr st)"

section \<open>Waiting for an acknowledgment\<close>

text \<open>
  One call of \<open>MQTT_ProcessLoop\<close> followed by one reading of the clock: the library hands
  the packets \<open>stepPackets\<close> to \<open>mqttCallback\<close> in arrival order (each is entered in
  \<open>callbackLog\<close> when the callback has returned), returns \<open>stepStatus\<close>, and \<open>getTime\<close> then
  returns \<open>stepTime\<close>.
\<close>

record processLoopStep =
  stepPackets :: "(MQTTPacketInfo \<times> MQTTDeserializedInfo) list"
  stepStatus :: MQTTStatus
  stepTime :: "32 word"

fun dispatchPackets ::
  "(MQTTPacketInfo \<times> MQTTDeserializedInfo) list \<Rightarrow> demo_state \<Rightarrow> error + demo_state" where
  "dispatchPackets [] st = Inr st"
| "dispatchPackets (p # ps) st =
     (case mqttCallback (fst p) (snd p) st of
        Inl e \<Rightarrow> Inl e
      | Inr st' \<Rightarrow> dispatchPackets ps (st'\<lparr>callbackLog := callbackLog st' @ [p]\<rparr>))"

definition MQTT_ProcessLoop :: "processLoopStep \<Rightarrow> demo_state \<Rightarrow> error + (MQTTStatus \<times> demo_state)" where
  "MQTT_ProcessLoop step st =
     (case dispatchPackets (stepPackets step) st of
        Inl e \<Rightarrow> Inl e
      | Inr st' \<Rightarrow> Inr (stepStatus step, st'))"

text \<open>
  The \<open>while\<close> loop of \<open>waitForPacketAck\<close>. The list holds what the network and the clock
  do at each further iteration; when the loop wants another iteration and the list is
  empty, what happens next is not known (\<open>ScriptExhausted\<close>). The loop returns
  \<open>eMqttStatus\<close>, \<open>ulCurrentTime\<close> and the state at loop exit.
\<close>

fun waitForPacketAck_loop ::
  "processLoopStep list \<Rightarrow> 16 word \<Rightarrow> 32 word \<Rightarrow> 32 word \<Rightarrow> MQTTStatus \<Rightarrow> demo_state
     \<Rightarrow> error + (MQTTStatus \<times> 32 word \<times> demo_state)" where
  "waitForPacketAck_loop steps usPacketIdentifier ulMqttProcessLoopTimeoutTime ulCurrentTime
       eMqttStatus st =
     (if globalAckPacketIdentifier st \<noteq> usPacketIdentifier \<and>
         ulCurrentTime < ulMqttProcessLoopTimeoutTime \<and>
         (eMqttStatus = MQTTSuccess \<or> eMqttStatus = MQTTNeedMoreBytes)
      then (case steps of
              [] \<Rightarrow> Inl ScriptExhausted
            | step # rest \<Rightarrow>
                (case MQTT_ProcessLoop step st of
                   Inl e \<Rightarrow> Inl e
                 | Inr (eMqttStatus', st') \<Rightarrow>
                     waitForPacketAck_loop rest usPacketIdentifier ulMqttProcessLoopTimeoutTime
                       (stepTime step) eMqttStatus' st'))
      else Inr (eMqttStatus, ulCurrentTime, st))"

declare waitForPacketAck_loop.simps [simp del]

text \<open>
  \<open>waitForPacketAck\<close>: \<open>entryTime\<close> is the first reading of \<open>getTime\<close>; the deadline is a
  32-bit sum and wraps.
\<close>

definition waitForPacketAck ::
  "32 word \<Rightarrow> processLoopStep list \<Rightarrow> 16 word \<Rightarrow> 32 word \<Rightarrow> demo_state
     \<Rightarrow> error + (bool \<times> demo_state)" where
  "waitForPacketAck entryTime steps usPacketIdentifier ulTimeout st =
     (let st0 = st\<lparr>globalAckPacketIdentifier := 0\<rparr>;
          ulCurrentTime = entryTime;
          ulMqttProcessLoopTimeoutTime = ulCurrentTime + ulTimeout
      in case waitForPacketAck_loop steps usPacketIdentifier ulMqttProcessLoopTimeoutTime
                ulCurrentTime MQTTSuccess st0 of
           Inl e \<Rightarrow> Inl e
         | Inr (eMqttStatus, ulCurrentTime', st') \<Rightarrow>
             if (eMqttStatus \<noteq> MQTTSuccess \<and> eMqttStatus \<noteq> MQTTNeedMoreBytes) \<or>
                globalAckPacketIdentifier st' \<noteq> usPacketIdentifier
             then Inr (False, st')
             else Inr (True, st'))"

section \<open>Backoff policy\<close>

text \<open>
  Modelled from the spec: the backoff library (\<open>backoff_algorithm.h\<close>, functions
  \<open>BackoffAlgorithm_InitializeParams\<close> and \<open>BackoffAlgorithm_GetNextBackoff\<close>) is not
  among the sources. Sections 3 and 4.1 of the specification give its state
  \<open>{ attempt, base, cap, maxAttempts }\<close> and its contract: the candidate is
  \<open>min(base * 2^attempt, cap)\<close> with the attempt starting at 0, the delay is drawn from
  \<open>[0, candidate]\<close> by the random value supplied, the attempt is incremented, and the
  result is Exhausted if then \<open>attempt > maxAttempts\<close>. The random value is reduced onto
  \<open>[0, candidate]\<close> by the remainder modulo \<open>candidate + 1\<close>.
\<close>

record BackoffState =
  attempt :: nat
  base :: nat
  cap :: nat
  maxAttempts :: nat

datatype BackoffAlgorithmStatus = BackoffAlgorithmSuccess | BackoffAlgorithmRetriesExhausted

text \<open>Modelled from the spec: a fresh state, with the attempt at 0 (sections 3 and 4.1).\<close>

definition BackoffAlgorithm_InitializeParams :: "nat \<Rightarrow> nat \<Rightarrow> nat \<Rightarrow> BackoffState" where
  "BackoffAlgorithm_InitializeParams backOffBase maxBackOff maxAttemptsArg =
     \<lparr> attempt = 0, base = backOffBase, cap = maxBackOff, maxAttempts = maxAttemptsArg \<rparr>"

text \<open>Modelled from the spec: \<open>candidate = min(base * 2^attempt, cap)\<close> (section 4.1).\<close>

definition candidate :: "BackoffState \<Rightarrow> nat" where
  "candidate s = min (base s * 2 ^ attempt s) (cap s)"

text \<open>
  Modelled from the spec: \<open>nextDelay\<close> of section 4.1, under the name the source calls. The
  third argument is the value of \<open>*pNextBackOff\<close> before the call, the second result its
  value after.
\<close>

definition BackoffAlgorithm_GetNextBackoff ::
  "BackoffState \<Rightarrow> 32 word \<Rightarrow> nat \<Rightarrow> BackoffAlgorithmStatus \<times> nat \<times> BackoffState" where
  "BackoffAlgorithm_GetNextBackoff s randomValue nextBackOff =
     (let delay = unat randomValue mod (candidate s + 1);
          s' = s\<lparr>attempt := attempt s + 1\<rparr>
      in if attempt s' > maxAttempts s' then (BackoffAlgorithmRetriesExhausted, nextBackOff, s')
         else (BackoffAlgorithmSuccess, delay, s'))"

section \<open>Connecting\<close>

text \<open>
  The \<open>do ... while\<close> loop of \<open>connectToBrokerWithBackoffRetries\<close>; it returns
  \<open>returnStatus\<close>. The loop is left when the transport connects or when the backoff
  status is not \<open>BackoffAlgorithmSuccess\<close>.
\<close>

function connect_loop ::
  "collaborators \<Rightarrow> BackoffState \<Rightarrow> nat \<Rightarrow> demo_state \<Rightarrow> bool \<times> demo_state" where
  "connect_loop env reconnectParams nextRetryBackOff st =
     (case Openssl_Connect env st of
        (opensslSuccess, st1) \<Rightarrow>
          if opensslSuccess then (True, st1)
          else (case generateRandomNumber env st1 of
                  (randomValue, st2) \<Rightarrow>
                    (case BackoffAlgorithm_GetNextBackoff reconnectParams randomValue
                            nextRetryBackOff of
                       (BackoffAlgorithmRetriesExhausted, nextRetryBackOff', reconnectParams') \<Rightarrow>
                         (False, st2)
                     | (BackoffAlgorithmSuccess, nextRetryBackOff', reconnectParams') \<Rightarrow>
                         connect_loop env reconnectParams' nextRetryBackOff'
                           (Clock_SleepMs nextRetryBackOff' st2))))"
  by pat_completeness auto
termination
  by (relation "measure (\<lambda>(env, reconnectParams, nextRetryBackOff, st).
                   maxAttempts reconnectParams + 1 - attempt reconnectParams)")
     (auto simp: BackoffAlgorithm_GetNextBackoff_def Let_def split: if_splits)

declare connect_loop.simps [simp del]

text \<open>
  \<open>connectToBrokerWithBackoffRetries\<close>: the clock is read and the generator seeded with the
  nanoseconds (converted to \<open>unsigned int\<close>), the retry parameters are initialised, and the
  loop runs.
\<close>

definition connectToBrokerWithBackoffRetries :: "collaborators \<Rightarrow> demo_state \<Rightarrow> bool \<times> demo_state" where
  "connectToBrokerWithBackoffRetries env st =
     (let tv_nsec = clockNsec env (length (seedLog st));
          st1 = srand (word_of_int tv_nsec) st;
          reconnectParams = BackoffAlgorithm_InitializeParams CONNECTION_RETRY_BACKOFF_BASE_MS
                              CONNECTION_RETRY_MAX_BACKOFF_DELAY_MS CONNECTION_RETRY_MAX_ATTEMPTS
      in connect_loop env reconnectParams 0 st1)"

text \<open>
  \<open>EstablishMqttSession\<close>. \<open>sessionPresent\<close> starts as \<open>false\<close> and is what \<open>MQTT_Connect\<close>
  stored when it returned \<open>MQTTSuccess\<close>.
\<close>

definition EstablishMqttSession :: "collaborators \<Rightarrow> nat option \<Rightarrow> demo_state \<Rightarrow> bool \<times> demo_state" where
  "EstablishMqttSession env publishCallback st =
     (case connectToBrokerWithBackoffRetries env st of
        (returnStatus, st1) \<Rightarrow>
          if returnStatus \<noteq> True then (returnStatus, st1)
          else
            (let st2 = st1\<lparr>appPublishCallback := publishCallback\<rparr>;
                 (returnStatus', sessionPresent) =
                    (if initStatus env \<noteq> MQTTSuccess then (False, False)
                     else if initStatefulQoSStatus env \<noteq> MQTTSuccess then (False, False)
                     else if connectStatus env \<noteq> MQTTSuccess then (False, False)
                     else (True, connectSessionPresent env));
                 st3 = (if returnStatus' = True then st2\<lparr>mqttSessionEstablished := True\<rparr> else st2)
             in if returnStatus' = True
                then (if sessionPresent = True then handlePublishResend env st3
                      else (returnStatus', cleanupOutgoingPublishes st3))
                else (returnStatus', st3)))"

section \<open>Vocabulary of the properties\<close>

text \<open>The number of free slots of a table (a slot is free when its identifier is invalid).\<close>

definition freeSlotCount :: "PublishPackets list \<Rightarrow> nat" where
  "freeSlotCount tbl = length (filter (\<lambda>p. packetId p = MQTT_PACKET_ID_INVALID) tbl)"

text \<open>Every free slot is entirely zero, as \<open>memset\<close> leaves it.\<close>

definition freeSlotsCleared :: "PublishPackets list \<Rightarrow> bool" where
  "freeSlotsCleared tbl =
     list_all (\<lambda>p. packetId p = MQTT_PACKET_ID_INVALID \<longrightarrow> p = zeroPublishPackets) tbl"

text \<open>
  A caller that issues one \<open>PublishToTopic\<close> call per request, in order, with nothing in
  between; it collects the return values.
\<close>

fun publishRepeatedly ::
  "collaborators \<Rightarrow> (string option \<times> 16 word \<times> string option \<times> nat) list \<Rightarrow> demo_state
     \<Rightarrow> error + (bool list \<times> demo_state)" where
  "publishRepeatedly env [] st = Inr ([], st)"
| "publishRepeatedly env ((pTopicFilter, topicFilterLength, pPayloadArg, payloadLengthArg) # rs) st =
     (case PublishToTopic env pTopicFilter topicFilterLength pPayloadArg payloadLengthArg st of
        Inl e \<Rightarrow> Inl e
      | Inr (ok, st') \<Rightarrow>
          (case publishRepeatedly env rs st' of
             Inl e \<Rightarrow> Inl e
           | Inr (oks, st'') \<Rightarrow> Inr (ok # oks, st'')))"

text \<open>
  The vocabulary of the claims about resending: a slot is live when its identifier is
  valid; the live records of a table in slot order; a slot as the resend loop leaves it;
  and the arguments of the \<open>MQTT_Publish\<close> call that resends a record.
\<close>

definition isLive :: "PublishPackets \<Rightarrow> bool" where
  "isLive p = (packetId p \<noteq> MQTT_PACKET_ID_INVALID)"

definition liveRecords :: "PublishPackets list \<Rightarrow> PublishPackets list" where
  "liveRecords tbl = filter isLive tbl"

definition markDuplicate :: "PublishPackets \<Rightarrow> PublishPackets" where
  "markDuplicate p = (if isLive p then p\<lparr>pubInfo := (pubInfo p)\<lparr>dup := True\<rparr>\<rparr> else p)"

definition resendOf :: "PublishPackets \<Rightarrow> MQTTPublishInfo \<times> 16 word" where
  "resendOf p = ((pubInfo p)\<lparr>dup := True\<rparr>, packetId p)"

text \<open>The retry parameters that \<open>connectToBrokerWithBackoffRetries\<close> initialises.\<close>

definition initialReconnectParams :: BackoffState where
  "initialReconnectParams =
     BackoffAlgorithm_InitializeParams CONNECTION_RETRY_BACKOFF_BASE_MS
       CONNECTION_RETRY_MAX_BACKOFF_DELAY_MS CONNECTION_RETRY_MAX_ATTEMPTS"

text \<open>
  The vocabulary of the claims about acknowledgments: the packets on which \<open>mqttCallback\<close>
  records the identifier, an acknowledgment carrying a given identifier, and the
  identifier recorded last after a sequence of packets.
\<close>

definition isAck :: "MQTTPacketInfo \<times> MQTTDeserializedInfo \<Rightarrow> bool" where
  "isAck p = (type (fst p) = MQTT_PACKET_TYPE_SUBACK \<or> type (fst p) = MQTT_PACKET_TYPE_UNSUBACK \<or>
              type (fst p) = MQTT_PACKET_TYPE_PUBACK)"

definition isAckFor :: "16 word \<Rightarrow> MQTTPacketInfo \<times> MQTTDeserializedInfo \<Rightarrow> bool" where
  "isAckFor pid p = (isAck p \<and> packetIdentifier (snd p) = pid)"

definition lastAckIdentifier ::
  "16 word \<Rightarrow> (MQTTPacketInfo \<times> MQTTDeserializedInfo) list \<Rightarrow> 16 word" where
  "lastAckIdentifier a ps = foldl (\<lambda>a p. if isAck p then packetIdentifier (snd p) else a) a ps"

section \<open>Sample values\<close>

text \<open>Concrete slots, tables, collaborators and protocol-loop scripts on which the
  theorems below are instantiated.\<close>

definition sampleSlot :: "16 word \<Rightarrow> PublishPackets" where
  "sampleSlot pid =
     \<lparr> packetId = pid,
       pubInfo = \<lparr> qos = MQTTQoS1, retain = False, dup = False, pTopicName = Some ''t'',
                   topicNameLength = 1, pPayload = Some ''p'', payloadLength = 1 \<rparr> \<rparr>"

definition sampleEnv :: collaborators where
  "sampleEnv =
     \<lparr> publishStatus = (\<lambda>n. MQTTSuccess), packetIdSource = (\<lambda>n. word_of_nat (n mod 65535) + 1),
       tlsConnectOk = (\<lambda>n. True), libcRand = (\<lambda>seeds n. 0), clockNsec = (\<lambda>n. 0),
       initStatus = MQTTSuccess, initStatefulQoSStatus = MQTTSuccess,
       connectStatus = MQTTSuccess, connectSessionPresent = True \<rparr>"

definition fullState :: demo_state where
  "fullState = initialState\<lparr>outgoingPublishPackets := map sampleSlot [1, 2, 3, 4, 5]\<rparr>"

definition fiveRequests :: "(string option \<times> 16 word \<times> string option \<times> nat) list" where
  "fiveRequests = replicate 5 (Some ''t'', 1, Some ''p'', 1)"

definition afterFivePublishes :: demo_state where
  "afterFivePublishes =
     initialState\<lparr>outgoingPublishPackets := map sampleSlot [1, 2, 3, 4, 5],
                  publishLog := map (\<lambda>pid. (pubInfo (sampleSlot pid), pid)) [1, 2, 3, 4, 5],
                  packetIdsIssued := 5\<rparr>"

definition oneLiveState :: demo_state where
  "oneLiveState =
     initialState\<lparr>outgoingPublishPackets :=
       [zeroPublishPackets, sampleSlot 7, zeroPublishPackets, zeroPublishPackets, zeroPublishPackets]\<rparr>"

definition failingSendEnv :: collaborators where
  "failingSendEnv = sampleEnv\<lparr>publishStatus := (\<lambda>n. MQTTOtherStatus 3)\<rparr>"

definition cleanSessionEnv :: collaborators where
  "cleanSessionEnv = sampleEnv\<lparr>connectSessionPresent := False\<rparr>"

definition secondSendFailsEnv :: collaborators where
  "secondSendFailsEnv =
     sampleEnv\<lparr>publishStatus := (\<lambda>n. if n = 1 then MQTTOtherStatus 3 else MQTTSuccess)\<rparr>"

definition threeLiveState :: demo_state where
  "threeLiveState =
     initialState\<lparr>outgoingPublishPackets :=
       [sampleSlot 7, zeroPublishPackets, sampleSlot 9, sampleSlot 11, zeroPublishPackets]\<rparr>"

definition allFailEnv :: collaborators where
  "allFailEnv = sampleEnv\<lparr>tlsConnectOk := (\<lambda>n. False), libcRand := (\<lambda>seeds n. 12345)\<rparr>"



definition pubackPacket :: "16 word \<Rightarrow> MQTTPacketInfo \<times> MQTTDeserializedInfo" where
  "pubackPacket pid =
     (\<lparr> type = MQTT_PACKET_TYPE_PUBACK \<rparr>, \<lparr> packetIdentifier = pid, pPublishInfo = None \<rparr>)"

definition sampleSteps :: "processLoopStep list" where
  "sampleSteps =
     [\<lparr> stepPackets = [], stepStatus = MQTTNeedMoreBytes, stepTime = 200 \<rparr>,
      \<lparr> stepPackets = [pubackPacket 9], stepStatus = MQTTSuccess, stepTime = 300 \<rparr>,
      \<lparr> stepPackets = [pubackPacket 7], stepStatus = MQTTNeedMoreBytes, stepTime = 400 \<rparr>]"

definition lateStep :: processLoopStep where
  "lateStep = \<lparr> stepPackets = [pubackPacket 9], stepStatus = MQTTSuccess, stepTime = 2000 \<rparr>"

definition staleAckState :: demo_state where
  "staleAckState = oneLiveState\<lparr>globalAckPacketIdentifier := 7\<rparr>"

section \<open>Reserving a slot\<close>

lemma getNextFreeIndex_loop_True:
  "getNextFreeIndex_loop tbl i = (True, j) \<Longrightarrow>
     i \<le> j \<and> j < MAX_OUTGOING_PUBLISHES \<and> packetId (tbl ! j) = MQTT_PACKET_ID_INVALID \<and>
     (\<forall>k. i \<le> k \<and> k < j \<longrightarrow> packetId (tbl ! k) \<noteq> MQTT_PACKET_ID_INVALID)"
proof (induction tbl i rule: getNextFreeIndex_loop.induct)
  case (1 tbl index)
  show ?case
  proof (cases "index < MAX_OUTGOING_PUBLISHES")
    case False
    with "1.prems" show ?thesis by (simp add: getNextFreeIndex_loop.simps [of tbl index])
  next
    case inr: True
    show ?thesis
    proof (cases "packetId (tbl ! index) = MQTT_PACKET_ID_INVALID")
      case True
      with inr "1.prems" show ?thesis by (auto simp: getNextFreeIndex_loop.simps [of tbl index])
    next
      case False
      with inr "1.prems" have "getNextFreeIndex_loop tbl (index + 1) = (True, j)"
        by (simp add: getNextFreeIndex_loop.simps [of tbl index])
      with "1.IH" inr False
      have ih: "index + 1 \<le> j \<and> j < MAX_OUTGOING_PUBLISHES \<and> packetId (tbl ! j) = MQTT_PACKET_ID_INVALID \<and>
        (\<forall>k. index + 1 \<le> k \<and> k < j \<longrightarrow> packetId (tbl ! k) \<noteq> MQTT_PACKET_ID_INVALID)"
        by blast
      have "\<And>k. index \<le> k \<Longrightarrow> k < j \<Longrightarrow> packetId (tbl ! k) \<noteq> MQTT_PACKET_ID_INVALID"
      proof -
        fix k assume "index \<le> k" "k < j"
        then consider "k = index" | "index + 1 \<le> k" by linarith
        then show "packetId (tbl ! k) \<noteq> MQTT_PACKET_ID_INVALID"
          using False ih \<open>k < j\<close> by cases auto
      qed
      with ih show ?thesis by auto
    qed
  qed
qed

lemma getNextFreeIndex_loop_False:
  "getNextFreeIndex_loop tbl i = (False, j) \<Longrightarrow>
     (\<forall>k. i \<le> k \<and> k < MAX_OUTGOING_PUBLISHES \<longrightarrow> packetId (tbl ! k) \<noteq> MQTT_PACKET_ID_INVALID)"
proof (induction tbl i rule: getNextFreeIndex_loop.induct)
  case (1 tbl index)
  show ?case
  proof (cases "index < MAX_OUTGOING_PUBLISHES")
    case False
    then show ?thesis by auto
  next
    case inr: True
    show ?thesis
    proof (cases "packetId (tbl ! index) = MQTT_PACKET_ID_INVALID")
      case True
      with inr "1.prems" show ?thesis by (simp add: getNextFreeIndex_loop.simps [of tbl index])
    next
      case False
      with inr "1.prems" have "getNextFreeIndex_loop tbl (index + 1) = (False, j)"
        by (simp add: getNextFreeIndex_loop.simps [of tbl index])
      with "1.IH" inr False
      have ih: "\<forall>k. index + 1 \<le> k \<and> k < MAX_OUTGOING_PUBLISHES \<longrightarrow> packetId (tbl ! k) \<noteq> MQTT_PACKET_ID_INVALID"
        by blast
      show ?thesis
      proof (intro allI impI)
        fix k assume "index \<le> k \<and> k < MAX_OUTGOING_PUBLISHES"
        then consider "k = index" | "index + 1 \<le> k \<and> k < MAX_OUTGOING_PUBLISHES" by linarith
        then show "packetId (tbl ! k) \<noteq> MQTT_PACKET_ID_INVALID"
          using False ih by cases auto
      qed
    qed
  qed
qed

lemma getNextFreeIndex_loop_full:
  "(\<forall>k. i \<le> k \<and> k < MAX_OUTGOING_PUBLISHES \<longrightarrow> packetId (tbl ! k) \<noteq> MQTT_PACKET_ID_INVALID)
     \<Longrightarrow> getNextFreeIndex_loop tbl i = (False, max i MAX_OUTGOING_PUBLISHES)"
proof (induction tbl i rule: getNextFreeIndex_loop.induct)
  case (1 tbl index)
  show ?case
  proof (cases "index < MAX_OUTGOING_PUBLISHES")
    case False
    then show ?thesis by (simp add: getNextFreeIndex_loop.simps [of tbl index] max_def)
  next
    case True
    with "1.prems" have live: "packetId (tbl ! index) \<noteq> MQTT_PACKET_ID_INVALID" by simp
    from "1.prems" have "\<forall>k. index + 1 \<le> k \<and> k < MAX_OUTGOING_PUBLISHES \<longrightarrow>
        packetId (tbl ! k) \<noteq> MQTT_PACKET_ID_INVALID" by simp
    with "1.IH" True live
    have "getNextFreeIndex_loop tbl (index + 1) = (False, max (index + 1) MAX_OUTGOING_PUBLISHES)"
      by blast
    with True live show ?thesis
      by (simp add: getNextFreeIndex_loop.simps [of tbl index] max_def)
  qed
qed

lemma getNextFreeIndex_loop_first:
  "i \<le> j \<Longrightarrow> j < MAX_OUTGOING_PUBLISHES \<Longrightarrow> packetId (tbl ! j) = MQTT_PACKET_ID_INVALID \<Longrightarrow>
     (\<forall>k. i \<le> k \<and> k < j \<longrightarrow> packetId (tbl ! k) \<noteq> MQTT_PACKET_ID_INVALID) \<Longrightarrow>
     getNextFreeIndex_loop tbl i = (True, j)"
proof (induction tbl i rule: getNextFreeIndex_loop.induct)
  case (1 tbl index)
  from "1.prems" have inr: "index < MAX_OUTGOING_PUBLISHES" by simp
  show ?case
  proof (cases "index = j")
    case True
    with inr "1.prems"(3) show ?thesis by (simp add: getNextFreeIndex_loop.simps [of tbl j])
  next
    case False
    with "1.prems" have lt: "index < j" by simp
    with "1.prems" have live: "packetId (tbl ! index) \<noteq> MQTT_PACKET_ID_INVALID" by simp
    from lt "1.prems" have "getNextFreeIndex_loop tbl (index + 1) = (True, j)"
      using "1.IH" [OF inr live] by simp
    with inr live show ?thesis by (simp add: getNextFreeIndex_loop.simps [of tbl index])
  qed
qed

lemma getNextFreeIndexForOutgoingPublishes_full:
  assumes "\<forall>k < MAX_OUTGOING_PUBLISHES. packetId (outgoingPublishPackets st ! k) \<noteq> MQTT_PACKET_ID_INVALID"
  shows "getNextFreeIndexForOutgoingPublishes st pIndex = (False, pIndex)"
  using getNextFreeIndex_loop_full [of 0 "outgoingPublishPackets st"] assms
  by (simp add: getNextFreeIndexForOutgoingPublishes_def)

lemma PublishToTopic_full:
  assumes "\<forall>k < MAX_OUTGOING_PUBLISHES. packetId (outgoingPublishPackets st ! k) \<noteq> MQTT_PACKET_ID_INVALID"
    and "pTopicFilter \<noteq> None" and "0 < topicFilterLength"
  shows "PublishToTopic env pTopicFilter topicFilterLength pPayloadArg payloadLengthArg st = Inr (False, st)"
  using assms(2,3) getNextFreeIndexForOutgoingPublishes_full [OF assms(1)]
  by (simp add: PublishToTopic_def)

lemma all_slots_nth:
  assumes "length tbl = MAX_OUTGOING_PUBLISHES"
    and "\<forall>p \<in> set tbl. packetId p \<noteq> MQTT_PACKET_ID_INVALID"
  shows "\<forall>k < MAX_OUTGOING_PUBLISHES. packetId (tbl ! k) \<noteq> MQTT_PACKET_ID_INVALID"
  using assms by simp

text \<open>
  Claim C6. When all five slots of the outgoing-publish table are live, the slot lookup of
  \<open>PublishToTopic\<close> reports failure without writing the index, and \<open>PublishToTopic\<close>
  returns \<open>false\<close> with the whole state (the table, the other variables and the record
  of calls into the collaborators) exactly as before.
\<close>

theorem C6_reserve_when_full:
  assumes "length (outgoingPublishPackets st) = MAX_OUTGOING_PUBLISHES"
    and "\<forall>p \<in> set (outgoingPublishPackets st). packetId p \<noteq> MQTT_PACKET_ID_INVALID"
    and "pTopicFilter \<noteq> None" and "0 < topicFilterLength"
  shows "getNextFreeIndexForOutgoingPublishes st pIndex = (False, pIndex) \<and>
         PublishToTopic env pTopicFilter topicFilterLength pPayloadArg payloadLengthArg st
           = Inr (False, st)"
proof -
  from assms(1,2)
  have live: "\<forall>k < MAX_OUTGOING_PUBLISHES.
                packetId (outgoingPublishPackets st ! k) \<noteq> MQTT_PACKET_ID_INVALID"
    by (rule all_slots_nth)
  from live have "getNextFreeIndexForOutgoingPublishes st pIndex = (False, pIndex)"
    by (rule getNextFreeIndexForOutgoingPublishes_full)
  moreover from live assms(3,4)
  have "PublishToTopic env pTopicFilter topicFilterLength pPayloadArg payloadLengthArg st
          = Inr (False, st)"
    by (rule PublishToTopic_full)
  ultimately show ?thesis by simp
qed

theorem C6_reserve_when_full_witness:
  "length (outgoingPublishPackets fullState) = MAX_OUTGOING_PUBLISHES \<and>
   list_all (\<lambda>p. packetId p \<noteq> MQTT_PACKET_ID_INVALID) (outgoingPublishPackets fullState) \<and>
   getNextFreeIndexForOutgoingPublishes fullState MAX_OUTGOING_PUBLISHES
     = (False, MAX_OUTGOING_PUBLISHES) \<and>
   PublishToTopic sampleEnv (Some ''topic'') 5 (Some ''payload'') 7 fullState = Inr (False, fullState)"
proof -
  have len: "length (outgoingPublishPackets fullState) = MAX_OUTGOING_PUBLISHES"
    by (simp add: fullState_def MAX_OUTGOING_PUBLISHES_def)
  have live: "\<forall>p \<in> set (outgoingPublishPackets fullState). packetId p \<noteq> MQTT_PACKET_ID_INVALID"
    by (simp add: fullState_def sampleSlot_def MQTT_PACKET_ID_INVALID_def)
  have topic: "Some ''topic'' \<noteq> None" "(0 :: 16 word) < 5" by simp_all
  from len live C6_reserve_when_full [OF len live topic, of MAX_OUTGOING_PUBLISHES sampleEnv "Some ''payload''" 7]
  show ?thesis by (simp add: list_all_iff)
qed


section \<open>The first free slot, and the sixth publish\<close>

lemma getNextFreeIndexForOutgoingPublishes_iff:
  "getNextFreeIndexForOutgoingPublishes st pIndex = (True, i) \<longleftrightarrow>
     i < MAX_OUTGOING_PUBLISHES \<and>
     packetId (outgoingPublishPackets st ! i) = MQTT_PACKET_ID_INVALID \<and>
     (\<forall>j < i. packetId (outgoingPublishPackets st ! j) \<noteq> MQTT_PACKET_ID_INVALID)"
proof
  assume a: "getNextFreeIndexForOutgoingPublishes st pIndex = (True, i)"
  obtain b j where loop: "getNextFreeIndex_loop (outgoingPublishPackets st) 0 = (b, j)"
    by (cases "getNextFreeIndex_loop (outgoingPublishPackets st) 0")
  with a have "b = True" "j = i"
    by (auto simp: getNextFreeIndexForOutgoingPublishes_def split: if_splits)
  with loop getNextFreeIndex_loop_True [of "outgoingPublishPackets st" 0 i]
  show "i < MAX_OUTGOING_PUBLISHES \<and>
     packetId (outgoingPublishPackets st ! i) = MQTT_PACKET_ID_INVALID \<and>
     (\<forall>j < i. packetId (outgoingPublishPackets st ! j) \<noteq> MQTT_PACKET_ID_INVALID)"
    by simp
next
  assume "i < MAX_OUTGOING_PUBLISHES \<and>
     packetId (outgoingPublishPackets st ! i) = MQTT_PACKET_ID_INVALID \<and>
     (\<forall>j < i. packetId (outgoingPublishPackets st ! j) \<noteq> MQTT_PACKET_ID_INVALID)"
  then have "getNextFreeIndex_loop (outgoingPublishPackets st) 0 = (True, i)"
    using getNextFreeIndex_loop_first [of 0 i "outgoingPublishPackets st"] by simp
  then show "getNextFreeIndexForOutgoingPublishes st pIndex = (True, i)"
    by (simp add: getNextFreeIndexForOutgoingPublishes_def)
qed

lemma PublishToTopic_reserved:
  assumes found: "getNextFreeIndexForOutgoingPublishes st MAX_OUTGOING_PUBLISHES = (True, i)"
    and topic: "pTopicFilter \<noteq> None" "0 < topicFilterLength"
  shows "PublishToTopic env pTopicFilter topicFilterLength pPayloadArg payloadLengthArg st =
     (let newId = packetIdSource env (packetIdsIssued st);
          info = (pubInfo (outgoingPublishPackets st ! i))\<lparr>qos := MQTTQoS1,
                   pTopicName := pTopicFilter, topicNameLength := topicFilterLength,
                   pPayload := pPayloadArg, payloadLength := payloadLengthArg\<rparr>;
          st' = st\<lparr>packetIdsIssued := packetIdsIssued st + 1,
                   publishLog := publishLog st @ [(info, newId)]\<rparr>
      in if publishStatus env (length (publishLog st)) \<noteq> MQTTSuccess
         then Inr (False, st'\<lparr>outgoingPublishPackets :=
                               (outgoingPublishPackets st)[i := zeroPublishPackets]\<rparr>)
         else Inr (True, st'\<lparr>outgoingPublishPackets :=
                              (outgoingPublishPackets st)[i := (outgoingPublishPackets st ! i)\<lparr>packetId := newId, pubInfo := info\<rparr>]\<rparr>))"
proof -
  from found have "i < MAX_OUTGOING_PUBLISHES"
    by (simp add: getNextFreeIndexForOutgoingPublishes_iff)
  with found topic show ?thesis
    by (simp add: PublishToTopic_def Let_def MQTT_GetPacketId_def MQTT_Publish_def
        cleanupOutgoingPublishAt_def)
qed

lemma filter_update_count:
  "i < length xs \<Longrightarrow> P (xs ! i) \<Longrightarrow> \<not> P x \<Longrightarrow>
     Suc (length (filter P (xs[i := x]))) = length (filter P xs)"
proof (induction xs arbitrary: i)
  case Nil
  then show ?case by simp
next
  case (Cons y ys)
  then show ?case by (cases i) auto
qed

lemma PublishToTopic_success_count:
  assumes len: "length (outgoingPublishPackets st) = MAX_OUTGOING_PUBLISHES"
    and ids: "\<forall>n. packetIdSource env n \<noteq> MQTT_PACKET_ID_INVALID"
    and ok: "PublishToTopic env pTopicFilter topicFilterLength pPayloadArg payloadLengthArg st
               = Inr (True, st')"
  shows "length (outgoingPublishPackets st') = MAX_OUTGOING_PUBLISHES \<and>
         Suc (freeSlotCount (outgoingPublishPackets st')) = freeSlotCount (outgoingPublishPackets st)"
proof -
  from ok have topic: "pTopicFilter \<noteq> None" "0 < topicFilterLength"
    by (auto simp: PublishToTopic_def split: if_splits)
  obtain b i where g: "getNextFreeIndexForOutgoingPublishes st MAX_OUTGOING_PUBLISHES = (b, i)"
    by (cases "getNextFreeIndexForOutgoingPublishes st MAX_OUTGOING_PUBLISHES")
  with ok topic have b: "b = True"
    by (auto simp: PublishToTopic_def split: if_splits)
  with g have found: "getNextFreeIndexForOutgoingPublishes st MAX_OUTGOING_PUBLISHES = (True, i)"
    by simp
  then have i: "i < MAX_OUTGOING_PUBLISHES"
      "packetId (outgoingPublishPackets st ! i) = MQTT_PACKET_ID_INVALID"
    by (simp_all add: getNextFreeIndexForOutgoingPublishes_iff)
  let ?newId = "packetIdSource env (packetIdsIssued st)"
  from ok PublishToTopic_reserved [OF found topic, of env pPayloadArg payloadLengthArg]
  obtain info where st': "outgoingPublishPackets st' =
      (outgoingPublishPackets st)[i := (outgoingPublishPackets st ! i)\<lparr>packetId := ?newId, pubInfo := info\<rparr>]"
    by (auto simp: Let_def split: if_splits)
  from ids have "\<not> packetId ((outgoingPublishPackets st ! i)\<lparr>packetId := ?newId, pubInfo := info\<rparr>) = MQTT_PACKET_ID_INVALID"
    by simp
  with i len st' show ?thesis
    by (simp add: freeSlotCount_def filter_update_count)
qed

lemma freeSlotCount_zero:
  assumes "length tbl = MAX_OUTGOING_PUBLISHES" and "freeSlotCount tbl = 0"
  shows "\<forall>p \<in> set tbl. packetId p \<noteq> MQTT_PACKET_ID_INVALID"
  using assms by (auto simp: freeSlotCount_def filter_empty_conv)

lemma freeSlotCount_le: "freeSlotCount tbl \<le> length tbl"
  by (simp add: freeSlotCount_def)

lemma publishRepeatedly_count:
  assumes "publishRepeatedly env reqs st = Inr (oks, st')"
    and "length (outgoingPublishPackets st) = MAX_OUTGOING_PUBLISHES"
    and "\<forall>n. packetIdSource env n \<noteq> MQTT_PACKET_ID_INVALID"
    and "list_all (\<lambda>ok. ok) oks"
  shows "length (outgoingPublishPackets st') = MAX_OUTGOING_PUBLISHES \<and>
         freeSlotCount (outgoingPublishPackets st') + length reqs
           = freeSlotCount (outgoingPublishPackets st)"
  using assms
proof (induction reqs arbitrary: st oks)
  case Nil
  then show ?case by simp
next
  case (Cons r rs)
  obtain t l p n where r: "r = (t, l, p, n)" by (cases r)
  from Cons.prems(1) r obtain ok st1 where
    first: "PublishToTopic env t l p n st = Inr (ok, st1)"
    by (auto split: sum.splits)
  with Cons.prems(1) r obtain oks1 where
    rest: "publishRepeatedly env rs st1 = Inr (oks1, st')" and oks: "oks = ok # oks1"
    by (auto split: sum.splits)
  from oks Cons.prems(4) have ok: "ok = True" and oks1: "list_all (\<lambda>ok. ok) oks1" by simp_all
  from first ok PublishToTopic_success_count [OF Cons.prems(2,3), of t l p n st1]
  have st1: "length (outgoingPublishPackets st1) = MAX_OUTGOING_PUBLISHES"
    "Suc (freeSlotCount (outgoingPublishPackets st1)) = freeSlotCount (outgoingPublishPackets st)"
    by simp_all
  from Cons.IH [OF rest st1(1) Cons.prems(3) oks1] st1(2) show ?case by simp
qed

lemma sixth_reserve_fails:
  assumes run: "publishRepeatedly env reqs st = Inr (oks, st')"
    and len: "length (outgoingPublishPackets st) = MAX_OUTGOING_PUBLISHES"
    and ids: "\<forall>n. packetIdSource env n \<noteq> MQTT_PACKET_ID_INVALID"
    and oks: "list_all (\<lambda>ok. ok) oks"
    and five: "length reqs = MAX_OUTGOING_PUBLISHES"
    and topic: "pTopicFilter \<noteq> None" "0 < topicFilterLength"
  shows "PublishToTopic env pTopicFilter topicFilterLength pPayloadArg payloadLengthArg st'
           = Inr (False, st')"
proof -
  from publishRepeatedly_count [OF run len ids oks] five
  have len': "length (outgoingPublishPackets st') = MAX_OUTGOING_PUBLISHES"
    and cnt: "freeSlotCount (outgoingPublishPackets st') + MAX_OUTGOING_PUBLISHES
                = freeSlotCount (outgoingPublishPackets st)"
    by simp_all
  from freeSlotCount_le [of "outgoingPublishPackets st"] len cnt
  have "freeSlotCount (outgoingPublishPackets st') = 0" by simp
  with len' have "\<forall>p \<in> set (outgoingPublishPackets st'). packetId p \<noteq> MQTT_PACKET_ID_INVALID"
    by (rule freeSlotCount_zero)
  with len' have "\<forall>k < MAX_OUTGOING_PUBLISHES.
      packetId (outgoingPublishPackets st' ! k) \<noteq> MQTT_PACKET_ID_INVALID"
    by (rule all_slots_nth)
  then show ?thesis using topic by (rule PublishToTopic_full)
qed

lemma sampleEnv_ids: "\<forall>n. packetIdSource sampleEnv n \<noteq> MQTT_PACKET_ID_INVALID"
proof
  fix n :: nat
  have "0 < n mod 65535 + 1" "n mod 65535 + 1 < 2 ^ LENGTH(16)" by simp_all
  then have "(word_of_nat (n mod 65535 + 1) :: 16 word) \<noteq> 0"
    by (rule of_nat_neq_0)
  then show "packetIdSource sampleEnv n \<noteq> MQTT_PACKET_ID_INVALID"
    by (simp add: sampleEnv_def MQTT_PACKET_ID_INVALID_def add.commute)
qed

lemmas sample_defs = initialState_def sampleEnv_def sampleSlot_def fullState_def fiveRequests_def afterFivePublishes_def

lemmas table_defs = getNextFreeIndexForOutgoingPublishes_def getNextFreeIndex_loop.simps
  cleanupOutgoingPublishAt_def cleanupOutgoingPublishes_def cleanupWithPacketID_loop.simps
  cleanupOutgoingPublishWithPacketID_def MAX_OUTGOING_PUBLISHES_def MQTT_PACKET_ID_INVALID_def
  zeroPublishPackets_def zeroPublishInfo_def

lemmas publish_defs = PublishToTopic_def MQTT_GetPacketId_def MQTT_Publish_def Let_def

lemma replicate_5: "replicate 5 x = [x, x, x, x, x]"
  by (simp add: numeral_eq_Suc)

lemma getNextFreeIndexForOutgoingPublishes_none_iff:
  assumes len: "length (outgoingPublishPackets st) = MAX_OUTGOING_PUBLISHES"
  shows "getNextFreeIndexForOutgoingPublishes st pIndex = (False, pIndex) \<longleftrightarrow>
         (\<forall>p \<in> set (outgoingPublishPackets st). packetId p \<noteq> MQTT_PACKET_ID_INVALID)"
proof
  assume a: "getNextFreeIndexForOutgoingPublishes st pIndex = (False, pIndex)"
  obtain b j where loop: "getNextFreeIndex_loop (outgoingPublishPackets st) 0 = (b, j)"
    by (cases "getNextFreeIndex_loop (outgoingPublishPackets st) 0")
  with a have "b = False"
    by (auto simp: getNextFreeIndexForOutgoingPublishes_def split: if_splits)
  with loop getNextFreeIndex_loop_False [of "outgoingPublishPackets st" 0 j]
  have "\<forall>k < MAX_OUTGOING_PUBLISHES.
          packetId (outgoingPublishPackets st ! k) \<noteq> MQTT_PACKET_ID_INVALID"
    by simp
  with len show "\<forall>p \<in> set (outgoingPublishPackets st). packetId p \<noteq> MQTT_PACKET_ID_INVALID"
    by (auto simp: in_set_conv_nth)
next
  assume "\<forall>p \<in> set (outgoingPublishPackets st). packetId p \<noteq> MQTT_PACKET_ID_INVALID"
  with len have "\<forall>k < MAX_OUTGOING_PUBLISHES.
      packetId (outgoingPublishPackets st ! k) \<noteq> MQTT_PACKET_ID_INVALID"
    by (rule all_slots_nth)
  then show "getNextFreeIndexForOutgoingPublishes st pIndex = (False, pIndex)"
    by (rule getNextFreeIndexForOutgoingPublishes_full)
qed

text \<open>
  Claim C2. The table has five slots. For every state of the table, the slot lookup
  succeeds with index \<open>i\<close> exactly when \<open>i\<close> is the lowest index whose \<open>packetId\<close> is
  the invalid identifier 0; it fails, leaving \<open>*pIndex\<close> as it was, exactly when all five
  slots are live, and then \<open>PublishToTopic\<close> returns \<open>false\<close> with the state unchanged, so
  that nothing is sent. After five consecutive \<open>PublishToTopic\<close> calls that all return
  \<open>true\<close> (with a generator of nonzero identifiers, and no acknowledgment processed in
  between) a sixth call returns \<open>false\<close> and changes nothing.
\<close>

theorem C2_reserve_first_free_slot:
  assumes len: "length (outgoingPublishPackets st) = MAX_OUTGOING_PUBLISHES"
  shows "MAX_OUTGOING_PUBLISHES = 5 \<and>
    (getNextFreeIndexForOutgoingPublishes st pIndex = (True, i) \<longleftrightarrow>
       i < MAX_OUTGOING_PUBLISHES \<and>
       packetId (outgoingPublishPackets st ! i) = MQTT_PACKET_ID_INVALID \<and>
       (\<forall>j < i. packetId (outgoingPublishPackets st ! j) \<noteq> MQTT_PACKET_ID_INVALID)) \<and>
    (getNextFreeIndexForOutgoingPublishes st pIndex = (False, pIndex) \<longleftrightarrow>
       (\<forall>p \<in> set (outgoingPublishPackets st). packetId p \<noteq> MQTT_PACKET_ID_INVALID)) \<and>
    ((\<forall>p \<in> set (outgoingPublishPackets st). packetId p \<noteq> MQTT_PACKET_ID_INVALID) \<and>
     pTopicFilter \<noteq> None \<and> 0 < topicFilterLength \<longrightarrow>
       PublishToTopic env pTopicFilter topicFilterLength pPayloadArg payloadLengthArg st
         = Inr (False, st)) \<and>
    (publishRepeatedly env reqs st = Inr (oks, st') \<and> length reqs = MAX_OUTGOING_PUBLISHES \<and>
     list_all (\<lambda>ok. ok) oks \<and> (\<forall>n. packetIdSource env n \<noteq> MQTT_PACKET_ID_INVALID) \<and>
     pTopicFilter \<noteq> None \<and> 0 < topicFilterLength \<longrightarrow>
       PublishToTopic env pTopicFilter topicFilterLength pPayloadArg payloadLengthArg st'
         = Inr (False, st'))"
proof (intro conjI impI)
  show "MAX_OUTGOING_PUBLISHES = 5" by (simp add: MAX_OUTGOING_PUBLISHES_def)
next
  show "getNextFreeIndexForOutgoingPublishes st pIndex = (True, i) \<longleftrightarrow>
       i < MAX_OUTGOING_PUBLISHES \<and>
       packetId (outgoingPublishPackets st ! i) = MQTT_PACKET_ID_INVALID \<and>
       (\<forall>j < i. packetId (outgoingPublishPackets st ! j) \<noteq> MQTT_PACKET_ID_INVALID)"
    by (rule getNextFreeIndexForOutgoingPublishes_iff)
next
  from len show "getNextFreeIndexForOutgoingPublishes st pIndex = (False, pIndex) \<longleftrightarrow>
       (\<forall>p \<in> set (outgoingPublishPackets st). packetId p \<noteq> MQTT_PACKET_ID_INVALID)"
    by (rule getNextFreeIndexForOutgoingPublishes_none_iff)
next
  assume a: "(\<forall>p \<in> set (outgoingPublishPackets st). packetId p \<noteq> MQTT_PACKET_ID_INVALID) \<and>
     pTopicFilter \<noteq> None \<and> 0 < topicFilterLength"
  with len have "\<forall>k < MAX_OUTGOING_PUBLISHES.
      packetId (outgoingPublishPackets st ! k) \<noteq> MQTT_PACKET_ID_INVALID"
    by (simp add: all_slots_nth)
  with a show "PublishToTopic env pTopicFilter topicFilterLength pPayloadArg payloadLengthArg st
         = Inr (False, st)"
    by (simp add: PublishToTopic_full)
next
  assume a: "publishRepeatedly env reqs st = Inr (oks, st') \<and> length reqs = MAX_OUTGOING_PUBLISHES \<and>
     list_all (\<lambda>ok. ok) oks \<and> (\<forall>n. packetIdSource env n \<noteq> MQTT_PACKET_ID_INVALID) \<and>
     pTopicFilter \<noteq> None \<and> 0 < topicFilterLength"
  then show "PublishToTopic env pTopicFilter topicFilterLength pPayloadArg payloadLengthArg st'
         = Inr (False, st')"
    using sixth_reserve_fails [OF _ len, of env reqs oks st' pTopicFilter topicFilterLength]
    by blast
qed

theorem C2_reserve_first_free_slot_witness:
  "length (outgoingPublishPackets initialState) = MAX_OUTGOING_PUBLISHES \<and>
   getNextFreeIndexForOutgoingPublishes initialState MAX_OUTGOING_PUBLISHES = (True, 0) \<and>
   publishRepeatedly sampleEnv fiveRequests initialState
     = Inr ([True, True, True, True, True], afterFivePublishes) \<and>
   PublishToTopic sampleEnv (Some ''t'') 1 (Some ''p'') 1 afterFivePublishes
     = Inr (False, afterFivePublishes) \<and>
   length (outgoingPublishPackets fullState) = MAX_OUTGOING_PUBLISHES \<and>
   list_all (\<lambda>p. packetId p \<noteq> MQTT_PACKET_ID_INVALID) (outgoingPublishPackets fullState) \<and>
   getNextFreeIndexForOutgoingPublishes fullState 9 = (False, 9) \<and>
   PublishToTopic sampleEnv (Some ''t'') 1 (Some ''p'') 1 fullState = Inr (False, fullState)"
proof -
  have len0: "length (outgoingPublishPackets initialState) = MAX_OUTGOING_PUBLISHES"
    by (simp add: sample_defs table_defs)
  have lenF: "length (outgoingPublishPackets fullState) = MAX_OUTGOING_PUBLISHES"
    by (simp add: sample_defs table_defs)
  have liveF: "\<forall>p \<in> set (outgoingPublishPackets fullState). packetId p \<noteq> MQTT_PACKET_ID_INVALID"
    by (simp add: sample_defs table_defs)
  have free0: "(0::nat) < MAX_OUTGOING_PUBLISHES \<and>
       packetId (outgoingPublishPackets initialState ! 0) = MQTT_PACKET_ID_INVALID \<and>
       (\<forall>j < (0::nat). packetId (outgoingPublishPackets initialState ! j) \<noteq> MQTT_PACKET_ID_INVALID)"
    by (simp add: sample_defs table_defs replicate_5)
  have run: "publishRepeatedly sampleEnv fiveRequests initialState
     = Inr ([True, True, True, True, True], afterFivePublishes)"
    by (simp add: sample_defs table_defs publish_defs replicate_5)
  have five: "length fiveRequests = MAX_OUTGOING_PUBLISHES"
    by (simp add: sample_defs table_defs)
  note a = C2_reserve_first_free_slot [OF len0, of MAX_OUTGOING_PUBLISHES 0 "Some ''t''" 1
      sampleEnv "Some ''p''" 1 fiveRequests "[True, True, True, True, True]" afterFivePublishes]
  note b = C2_reserve_first_free_slot [OF lenF, of 9 0 "Some ''t''" 1
      sampleEnv "Some ''p''" 1 "[]" "[]" fullState]
  from a free0 have w1: "getNextFreeIndexForOutgoingPublishes initialState MAX_OUTGOING_PUBLISHES = (True, 0)"
    by blast
  from a run five sampleEnv_ids
  have w2: "PublishToTopic sampleEnv (Some ''t'') 1 (Some ''p'') 1 afterFivePublishes
     = Inr (False, afterFivePublishes)"
    by simp
  from b liveF have w3: "getNextFreeIndexForOutgoingPublishes fullState 9 = (False, 9)"
    by blast
  from b liveF have w4: "PublishToTopic sampleEnv (Some ''t'') 1 (Some ''p'') 1 fullState = Inr (False, fullState)"
    by simp
  from len0 lenF liveF run w1 w2 w3 w4 show ?thesis by (simp add: list_all_iff)
qed

section \<open>Releasing a packet identifier\<close>

lemma cleanupWithPacketID_loop_none:
  "(\<forall>j. k \<le> j \<and> j < MAX_OUTGOING_PUBLISHES \<longrightarrow> packetId (outgoingPublishPackets st ! j) \<noteq> pid)
     \<Longrightarrow> cleanupWithPacketID_loop pid k st = Inr st"
proof (induction pid k st rule: cleanupWithPacketID_loop.induct)
  case (1 pid index st)
  show ?case
  proof (cases "index < MAX_OUTGOING_PUBLISHES")
    case False
    then show ?thesis by (simp add: cleanupWithPacketID_loop.simps [of pid index st])
  next
    case True
    with "1.prems" have ne: "packetId (outgoingPublishPackets st ! index) \<noteq> pid" by simp
    from "1.prems" have "\<forall>j. index + 1 \<le> j \<and> j < MAX_OUTGOING_PUBLISHES \<longrightarrow>
        packetId (outgoingPublishPackets st ! j) \<noteq> pid" by simp
    with "1.IH" True ne have "cleanupWithPacketID_loop pid (index + 1) st = Inr st" by blast
    with True ne show ?thesis by (simp add: cleanupWithPacketID_loop.simps [of pid index st])
  qed
qed

lemma cleanupWithPacketID_loop_first:
  "k \<le> i \<Longrightarrow> i < MAX_OUTGOING_PUBLISHES \<Longrightarrow> packetId (outgoingPublishPackets st ! i) = pid \<Longrightarrow>
   (\<forall>j. k \<le> j \<and> j < i \<longrightarrow> packetId (outgoingPublishPackets st ! j) \<noteq> pid) \<Longrightarrow>
   cleanupWithPacketID_loop pid k st =
     Inr (st\<lparr>outgoingPublishPackets := (outgoingPublishPackets st)[i := zeroPublishPackets]\<rparr>)"
proof (induction pid k st rule: cleanupWithPacketID_loop.induct)
  case (1 pid index st)
  from "1.prems" have inr: "index < MAX_OUTGOING_PUBLISHES" by simp
  show ?case
  proof (cases "index = i")
    case True
    with inr "1.prems"(3) show ?thesis
      by (simp add: cleanupWithPacketID_loop.simps [of pid i st] cleanupOutgoingPublishAt_def)
  next
    case False
    with "1.prems" have lt: "index < i" by simp
    with "1.prems" have ne: "packetId (outgoingPublishPackets st ! index) \<noteq> pid" by simp
    from lt "1.prems" have "cleanupWithPacketID_loop pid (index + 1) st =
        Inr (st\<lparr>outgoingPublishPackets := (outgoingPublishPackets st)[i := zeroPublishPackets]\<rparr>)"
      using "1.IH" [OF inr ne] by simp
    with inr ne show ?thesis by (simp add: cleanupWithPacketID_loop.simps [of pid index st])
  qed
qed

lemma cleanup_no_match:
  assumes "length (outgoingPublishPackets st) = MAX_OUTGOING_PUBLISHES"
    and "pid \<noteq> MQTT_PACKET_ID_INVALID"
    and "\<forall>p \<in> set (outgoingPublishPackets st). packetId p \<noteq> pid"
  shows "cleanupOutgoingPublishWithPacketID pid st = Inr st"
proof -
  from assms(1,3) have "\<forall>j. 0 \<le> j \<and> j < MAX_OUTGOING_PUBLISHES \<longrightarrow>
      packetId (outgoingPublishPackets st ! j) \<noteq> pid" by simp
  then have "cleanupWithPacketID_loop pid 0 st = Inr st"
    by (rule cleanupWithPacketID_loop_none)
  with assms(2) show ?thesis by (simp add: cleanupOutgoingPublishWithPacketID_def)
qed

lemma cleanup_first_match:
  assumes "pid \<noteq> MQTT_PACKET_ID_INVALID"
    and "i < MAX_OUTGOING_PUBLISHES" and "packetId (outgoingPublishPackets st ! i) = pid"
    and "\<forall>j < i. packetId (outgoingPublishPackets st ! j) \<noteq> pid"
  shows "cleanupOutgoingPublishWithPacketID pid st =
     Inr (st\<lparr>outgoingPublishPackets := (outgoingPublishPackets st)[i := zeroPublishPackets]\<rparr>)"
  using assms cleanupWithPacketID_loop_first [of 0 i st pid]
  by (simp add: cleanupOutgoingPublishWithPacketID_def)

lemma first_match_exists:
  assumes "\<exists>p \<in> set tbl. packetId p = pid"
  shows "\<exists>i < length tbl. packetId (tbl ! i) = pid \<and> (\<forall>j < i. packetId (tbl ! j) \<noteq> pid)"
proof -
  let ?P = "\<lambda>i. i < length tbl \<and> packetId (tbl ! i) = pid"
  from assms obtain i0 where "?P i0" by (auto simp: in_set_conv_nth)
  then have "?P (LEAST i. ?P i)" by (rule LeastI)
  moreover have "\<forall>j < (LEAST i. ?P i). packetId (tbl ! j) \<noteq> pid"
  proof (intro allI impI)
    fix j assume lt: "j < (LEAST i. ?P i)"
    then have "\<not> ?P j" by (rule not_less_Least)
    moreover from lt \<open>?P (LEAST i. ?P i)\<close> have "j < length tbl" by simp
    ultimately show "packetId (tbl ! j) \<noteq> pid" by simp
  qed
  ultimately show ?thesis by blast
qed

lemma single_match_elsewhere:
  assumes one: "length (filter (\<lambda>p. packetId p = pid) tbl) \<le> 1"
    and i: "i < length tbl" "packetId (tbl ! i) = pid"
    and x: "packetId x \<noteq> pid"
  shows "\<forall>p \<in> set (tbl[i := x]). packetId p \<noteq> pid"
proof -
  from i x have "Suc (length (filter (\<lambda>p. packetId p = pid) (tbl[i := x])))
      = length (filter (\<lambda>p. packetId p = pid) tbl)"
    by (simp add: filter_update_count)
  with one have "length (filter (\<lambda>p. packetId p = pid) (tbl[i := x])) = 0" by linarith
  then show ?thesis by (auto simp: filter_empty_conv)
qed

lemma distinct_ids_at_most_one_general:
  "distinct (map f xs) \<Longrightarrow> length (filter (\<lambda>p. f p = a) xs) \<le> 1"
proof (induction xs)
  case Nil
  then show ?case by simp
next
  case (Cons x xs)
  then have notin: "f x \<notin> f ` set xs" and d: "distinct (map f xs)" by simp_all
  show ?case
  proof (cases "f x = a")
    case True
    with notin have "\<forall>p \<in> set xs. f p \<noteq> a" by (metis image_eqI)
    then have "filter (\<lambda>p. f p = a) xs = []" by (simp add: filter_empty_conv)
    with True show ?thesis by simp
  next
    case False
    with Cons.IH [OF d] show ?thesis by simp
  qed
qed

lemma distinct_live_ids_at_most_one:
  assumes "distinct (map packetId (liveRecords tbl))" and "pid \<noteq> MQTT_PACKET_ID_INVALID"
  shows "length (filter (\<lambda>p. packetId p = pid) tbl) \<le> 1"
proof -
  from assms(2) have "filter (\<lambda>p. packetId p = pid) tbl
      = filter (\<lambda>p. packetId p = pid) (liveRecords tbl)"
    by (auto simp: liveRecords_def isLive_def intro: filter_cong)
  with distinct_ids_at_most_one_general [OF assms(1), of pid] show ?thesis by simp
qed

lemma single_match_is_first:
  assumes one: "length (filter (\<lambda>p. packetId p = pid) tbl) \<le> 1"
    and i: "i < length tbl" "packetId (tbl ! i) = pid"
  shows "\<forall>j < i. packetId (tbl ! j) \<noteq> pid"
proof (intro allI impI notI)
  fix j assume j: "j < i" and m: "packetId (tbl ! j) = pid"
  let ?x = "(tbl ! j)\<lparr>packetId := pid + 1\<rparr>"
  have x: "packetId ?x \<noteq> pid" by simp
  from j i(1) have jl: "j < length tbl" by simp
  from one jl m x have "\<forall>p \<in> set (tbl[j := ?x]). packetId p \<noteq> pid"
    by (rule single_match_elsewhere)
  moreover from j i(1) have "tbl[j := ?x] ! i = tbl ! i" by simp
  moreover from i(1) have "tbl[j := ?x] ! i \<in> set (tbl[j := ?x])" by simp
  ultimately show False using i(2) by metis
qed

text \<open>
  Claim C5. Packet identifiers are not reused while still tracked, so at most one slot
  carries a given identifier (pairwise distinct identifiers of the live records imply it,
  see \<open>distinct_live_ids_at_most_one\<close>). For a nonzero identifier,
  \<open>cleanupOutgoingPublishWithPacketID\<close> then zeroes the slot whose identifier matches, is a
  no-op and not an error when no slot matches, and releasing the identifier twice leaves
  the same state as releasing it once.
\<close>

theorem C5_release_matching_slot:
  assumes len: "length (outgoingPublishPackets st) = MAX_OUTGOING_PUBLISHES"
    and pid: "pid \<noteq> MQTT_PACKET_ID_INVALID"
    and one: "length (filter (\<lambda>p. packetId p = pid) (outgoingPublishPackets st)) \<le> 1"
  shows
    "((\<forall>p \<in> set (outgoingPublishPackets st). packetId p \<noteq> pid) \<longrightarrow>
        cleanupOutgoingPublishWithPacketID pid st = Inr st) \<and>
     (i < MAX_OUTGOING_PUBLISHES \<and> packetId (outgoingPublishPackets st ! i) = pid \<longrightarrow>
        cleanupOutgoingPublishWithPacketID pid st =
          Inr (st\<lparr>outgoingPublishPackets :=
                    (outgoingPublishPackets st)[i := zeroPublishPackets]\<rparr>)) \<and>
     (\<exists>st'. cleanupOutgoingPublishWithPacketID pid st = Inr st' \<and>
            cleanupOutgoingPublishWithPacketID pid st' = Inr st')"
proof (intro conjI impI)
  assume "\<forall>p \<in> set (outgoingPublishPackets st). packetId p \<noteq> pid"
  with len pid show "cleanupOutgoingPublishWithPacketID pid st = Inr st"
    by (rule cleanup_no_match)
next
  assume a: "i < MAX_OUTGOING_PUBLISHES \<and> packetId (outgoingPublishPackets st ! i) = pid"
  with len have il: "i < length (outgoingPublishPackets st)" by simp
  from a have m: "packetId (outgoingPublishPackets st ! i) = pid" by simp
  from one il m have "\<forall>j < i. packetId (outgoingPublishPackets st ! j) \<noteq> pid"
    by (rule single_match_is_first)
  with pid a show "cleanupOutgoingPublishWithPacketID pid st =
      Inr (st\<lparr>outgoingPublishPackets := (outgoingPublishPackets st)[i := zeroPublishPackets]\<rparr>)"
    using cleanup_first_match [of pid i st] by blast
next
  show "\<exists>st'. cleanupOutgoingPublishWithPacketID pid st = Inr st' \<and>
               cleanupOutgoingPublishWithPacketID pid st' = Inr st'"
  proof (cases "\<exists>p \<in> set (outgoingPublishPackets st). packetId p = pid")
    case False
    then have "\<forall>p \<in> set (outgoingPublishPackets st). packetId p \<noteq> pid" by simp
    with len pid have "cleanupOutgoingPublishWithPacketID pid st = Inr st"
      by (rule cleanup_no_match)
    then show ?thesis by simp
  next
    case True
    then obtain k where k: "k < length (outgoingPublishPackets st)"
        "packetId (outgoingPublishPackets st ! k) = pid"
        "\<forall>j < k. packetId (outgoingPublishPackets st ! j) \<noteq> pid"
      using first_match_exists by blast
    let ?tbl' = "(outgoingPublishPackets st)[k := zeroPublishPackets]"
    let ?st' = "st\<lparr>outgoingPublishPackets := ?tbl'\<rparr>"
    from k(1) len have kmax: "k < MAX_OUTGOING_PUBLISHES" by simp
    from pid kmax k(2,3) have first: "cleanupOutgoingPublishWithPacketID pid st = Inr ?st'"
      by (rule cleanup_first_match)
    from pid have z: "packetId zeroPublishPackets \<noteq> pid"
      by (auto simp: zeroPublishPackets_def MQTT_PACKET_ID_INVALID_def)
    from one k(1,2) z have none: "\<forall>p \<in> set ?tbl'. packetId p \<noteq> pid"
      by (rule single_match_elsewhere)
    have len': "length (outgoingPublishPackets ?st') = MAX_OUTGOING_PUBLISHES"
      using len by simp
    have none': "\<forall>p \<in> set (outgoingPublishPackets ?st'). packetId p \<noteq> pid"
      using none by simp
    from len' pid none' have "cleanupOutgoingPublishWithPacketID pid ?st' = Inr ?st'"
      by (rule cleanup_no_match)
    with first show ?thesis by simp
  qed
qed

theorem C5_release_matching_slot_witness:
  "length (outgoingPublishPackets threeLiveState) = MAX_OUTGOING_PUBLISHES \<and>
   distinct (map packetId (liveRecords (outgoingPublishPackets threeLiveState))) \<and>
   cleanupOutgoingPublishWithPacketID 8 threeLiveState = Inr threeLiveState \<and>
   cleanupOutgoingPublishWithPacketID 7 oneLiveState = Inr initialState \<and>
   cleanupOutgoingPublishWithPacketID 7 initialState = Inr initialState \<and>
   outgoingPublishPackets (projr (cleanupOutgoingPublishWithPacketID 9 threeLiveState))
     = [sampleSlot 7, zeroPublishPackets, zeroPublishPackets, sampleSlot 11, zeroPublishPackets] \<and>
   cleanupOutgoingPublishWithPacketID 9 (projr (cleanupOutgoingPublishWithPacketID 9 threeLiveState))
     = cleanupOutgoingPublishWithPacketID 9 threeLiveState"
proof -
  have len: "length (outgoingPublishPackets oneLiveState) = MAX_OUTGOING_PUBLISHES"
    and len3: "length (outgoingPublishPackets threeLiveState) = MAX_OUTGOING_PUBLISHES"
    by (simp_all add: oneLiveState_def threeLiveState_def sample_defs table_defs)
  have ids: "(8 :: 16 word) \<noteq> MQTT_PACKET_ID_INVALID" "(7 :: 16 word) \<noteq> MQTT_PACKET_ID_INVALID"
    "(9 :: 16 word) \<noteq> MQTT_PACKET_ID_INVALID"
    by (simp_all add: table_defs)
  have dist: "distinct (map packetId (liveRecords (outgoingPublishPackets threeLiveState)))"
    by (simp add: threeLiveState_def sample_defs table_defs isLive_def liveRecords_def)
  have one8: "length (filter (\<lambda>p. packetId p = 8) (outgoingPublishPackets threeLiveState)) \<le> 1"
    and one9: "length (filter (\<lambda>p. packetId p = 9) (outgoingPublishPackets threeLiveState)) \<le> 1"
    using distinct_live_ids_at_most_one [OF dist ids(1)]
      distinct_live_ids_at_most_one [OF dist ids(3)] by blast+
  have one7: "length (filter (\<lambda>p. packetId p = 7) (outgoingPublishPackets oneLiveState)) \<le> 1"
    by (simp add: oneLiveState_def sample_defs table_defs)
  have none: "\<forall>p \<in> set (outgoingPublishPackets threeLiveState). packetId p \<noteq> 8"
    by (simp add: threeLiveState_def sample_defs table_defs)
  have at1: "(1::nat) < MAX_OUTGOING_PUBLISHES \<and> packetId (outgoingPublishPackets oneLiveState ! 1) = 7"
    by (simp add: oneLiveState_def sample_defs table_defs)
  have at2: "(2::nat) < MAX_OUTGOING_PUBLISHES \<and> packetId (outgoingPublishPackets threeLiveState ! 2) = 9"
    by (simp add: threeLiveState_def sample_defs table_defs)
  have upd: "oneLiveState\<lparr>outgoingPublishPackets :=
      (outgoingPublishPackets oneLiveState)[1 := zeroPublishPackets]\<rparr> = initialState"
    by (simp add: oneLiveState_def sample_defs table_defs replicate_5)
  have upd3: "(outgoingPublishPackets threeLiveState)[2 := zeroPublishPackets]
      = [sampleSlot 7, zeroPublishPackets, zeroPublishPackets, sampleSlot 11, zeroPublishPackets]"
    by (simp add: threeLiveState_def)
  note a = C5_release_matching_slot [OF len3 ids(1) one8, of 0]
  note b = C5_release_matching_slot [OF len ids(2) one7, of 1]
  note c = C5_release_matching_slot [OF len3 ids(3) one9, of 2]
  from a none have w1: "cleanupOutgoingPublishWithPacketID 8 threeLiveState = Inr threeLiveState"
    by blast
  from b at1 upd have w2: "cleanupOutgoingPublishWithPacketID 7 oneLiveState = Inr initialState"
    by simp
  from b w2 have w3: "cleanupOutgoingPublishWithPacketID 7 initialState = Inr initialState"
    by auto
  from c at2 have r9: "cleanupOutgoingPublishWithPacketID 9 threeLiveState =
      Inr (threeLiveState\<lparr>outgoingPublishPackets :=
             (outgoingPublishPackets threeLiveState)[2 := zeroPublishPackets]\<rparr>)"
    by blast
  with upd3 have w4: "outgoingPublishPackets (projr (cleanupOutgoingPublishWithPacketID 9 threeLiveState))
     = [sampleSlot 7, zeroPublishPackets, zeroPublishPackets, sampleSlot 11, zeroPublishPackets]"
    by simp
  from c have w5: "cleanupOutgoingPublishWithPacketID 9
        (projr (cleanupOutgoingPublishWithPacketID 9 threeLiveState))
     = cleanupOutgoingPublishWithPacketID 9 threeLiveState"
    by auto
  from len3 dist w1 w2 w3 w4 w5 show ?thesis by blast
qed

section \<open>A failed publish\<close>

lemma freeSlotsCleared_nth:
  "freeSlotsCleared tbl \<Longrightarrow> i < length tbl \<Longrightarrow> packetId (tbl ! i) = MQTT_PACKET_ID_INVALID \<Longrightarrow>
     tbl ! i = zeroPublishPackets"
  by (simp add: freeSlotsCleared_def list_all_length)

lemma freeSlotsCleared_initialState: "freeSlotsCleared (outgoingPublishPackets initialState)"
  by (simp add: freeSlotsCleared_def initialState_def list_all_iff)

lemma freeSlotsCleared_update:
  assumes "freeSlotsCleared tbl"
    and "packetId x = MQTT_PACKET_ID_INVALID \<longrightarrow> x = zeroPublishPackets"
  shows "freeSlotsCleared (tbl[i := x])"
proof -
  have "set (tbl[i := x]) \<subseteq> insert x (set tbl)" by (rule set_update_subset_insert)
  with assms show ?thesis by (auto simp: freeSlotsCleared_def list_all_iff)
qed

text \<open>
  Claim C9. When a slot has been reserved and filled and \<open>MQTT_Publish\<close> then fails,
  \<open>PublishToTopic\<close> returns \<open>false\<close> and the table afterwards is the table before the
  call with the reserved slot zeroed: that slot's identifier is the invalid identifier 0
  again, every slot carries the identifier it carried before, and, free slots being
  entirely zero (as \<open>memset\<close> leaves them, see \<open>freeSlotsCleared\<close>), the table is equal to the
  table before the call.
\<close>

theorem C9_failed_publish_clears_reserved_slot:
  assumes len: "length (outgoingPublishPackets st) = MAX_OUTGOING_PUBLISHES"
    and topic: "pTopicFilter \<noteq> None" "0 < topicFilterLength"
    and found: "getNextFreeIndexForOutgoingPublishes st MAX_OUTGOING_PUBLISHES = (True, i)"
    and fail: "publishStatus env (length (publishLog st)) \<noteq> MQTTSuccess"
  shows "\<exists>st'. PublishToTopic env pTopicFilter topicFilterLength pPayloadArg payloadLengthArg st
                 = Inr (False, st') \<and>
           outgoingPublishPackets st' = (outgoingPublishPackets st)[i := zeroPublishPackets] \<and>
           packetId (outgoingPublishPackets st' ! i) = MQTT_PACKET_ID_INVALID \<and>
           map packetId (outgoingPublishPackets st') = map packetId (outgoingPublishPackets st) \<and>
           (freeSlotsCleared (outgoingPublishPackets st) \<longrightarrow>
              outgoingPublishPackets st' = outgoingPublishPackets st)"
proof -
  from found have i: "i < MAX_OUTGOING_PUBLISHES"
      "packetId (outgoingPublishPackets st ! i) = MQTT_PACKET_ID_INVALID"
    by (simp_all add: getNextFreeIndexForOutgoingPublishes_iff)
  let ?tbl = "outgoingPublishPackets st"
  let ?tbl' = "?tbl[i := zeroPublishPackets]"
  from fail PublishToTopic_reserved [OF found topic, of env pPayloadArg payloadLengthArg]
  obtain st' where res: "PublishToTopic env pTopicFilter topicFilterLength pPayloadArg
        payloadLengthArg st = Inr (False, st')"
    and tbl': "outgoingPublishPackets st' = ?tbl'"
    by (simp add: Let_def)
  from i len have z: "packetId (?tbl' ! i) = MQTT_PACKET_ID_INVALID"
    by (simp add: zeroPublishPackets_def MQTT_PACKET_ID_INVALID_def)
  have "map packetId ?tbl' = (map packetId ?tbl)[i := packetId zeroPublishPackets]"
    by (rule map_update)
  also from i have "\<dots> = (map packetId ?tbl)[i := map packetId ?tbl ! i]"
    using len by (simp add: zeroPublishPackets_def MQTT_PACKET_ID_INVALID_def)
  also have "\<dots> = map packetId ?tbl" by (rule list_update_id)
  finally have ids: "map packetId ?tbl' = map packetId ?tbl" .
  have same: "freeSlotsCleared ?tbl \<longrightarrow> ?tbl' = ?tbl"
  proof
    assume "freeSlotsCleared ?tbl"
    with i len have "?tbl ! i = zeroPublishPackets" by (simp add: freeSlotsCleared_nth)
    then have "?tbl' = ?tbl[i := ?tbl ! i]" by simp
    then show "?tbl' = ?tbl" by (simp only: list_update_id)
  qed
  from res tbl' z ids same show ?thesis by simp
qed

theorem C9_failed_publish_clears_reserved_slot_witness:
  "length (outgoingPublishPackets oneLiveState) = MAX_OUTGOING_PUBLISHES \<and>
   getNextFreeIndexForOutgoingPublishes oneLiveState MAX_OUTGOING_PUBLISHES = (True, 0) \<and>
   publishStatus failingSendEnv (length (publishLog oneLiveState)) \<noteq> MQTTSuccess \<and>
   freeSlotsCleared (outgoingPublishPackets oneLiveState) \<and>
   fst (projr (PublishToTopic failingSendEnv (Some ''t'') 1 (Some ''p'') 1 oneLiveState)) = False \<and>
   outgoingPublishPackets
      (snd (projr (PublishToTopic failingSendEnv (Some ''t'') 1 (Some ''p'') 1 oneLiveState)))
     = outgoingPublishPackets oneLiveState"
proof -
  have len: "length (outgoingPublishPackets oneLiveState) = MAX_OUTGOING_PUBLISHES"
    by (simp add: oneLiveState_def sample_defs table_defs)
  have topic: "Some ''t'' \<noteq> None" "(0 :: 16 word) < 1" by simp_all
  have found: "getNextFreeIndexForOutgoingPublishes oneLiveState MAX_OUTGOING_PUBLISHES = (True, 0)"
    by (simp add: oneLiveState_def sample_defs table_defs)
  have fail: "publishStatus failingSendEnv (length (publishLog oneLiveState)) \<noteq> MQTTSuccess"
    by (simp add: failingSendEnv_def)
  have inv: "freeSlotsCleared (outgoingPublishPackets oneLiveState)"
    by (simp add: freeSlotsCleared_def oneLiveState_def sample_defs table_defs)
  from C9_failed_publish_clears_reserved_slot [OF len topic found fail, of "Some ''p''" 1] inv
  obtain st' where "PublishToTopic failingSendEnv (Some ''t'') 1 (Some ''p'') 1 oneLiveState
      = Inr (False, st')" "outgoingPublishPackets st' = outgoingPublishPackets oneLiveState"
    by blast
  with len found fail inv show ?thesis by simp
qed

section \<open>Resending on a resumed session, clearing on a clean one\<close>

lemma handlePublishResend_loop_done:
  "\<not> i < MAX_OUTGOING_PUBLISHES \<Longrightarrow> handlePublishResend_loop env i st = (i, st)"
  by (simp add: handlePublishResend_loop.simps [of env i st])

lemma handlePublishResend_loop_free:
  "i < MAX_OUTGOING_PUBLISHES \<Longrightarrow> \<not> isLive (outgoingPublishPackets st ! i) \<Longrightarrow>
     handlePublishResend_loop env i st = handlePublishResend_loop env (i + 1) st"
  by (simp add: handlePublishResend_loop.simps [of env i st] isLive_def)

lemma handlePublishResend_loop_live:
  "i < MAX_OUTGOING_PUBLISHES \<Longrightarrow> isLive (outgoingPublishPackets st ! i) \<Longrightarrow>
     handlePublishResend_loop env i st =
       (let st2 = st\<lparr>outgoingPublishPackets :=
                       (outgoingPublishPackets st)[i := markDuplicate (outgoingPublishPackets st ! i)],
                     publishLog := publishLog st @ [resendOf (outgoingPublishPackets st ! i)]\<rparr>
        in if publishStatus env (length (publishLog st)) \<noteq> MQTTSuccess then (i, st2)
           else handlePublishResend_loop env (i + 1) st2)"
  by (simp add: handlePublishResend_loop.simps [of env i st] isLive_def markDuplicate_def
      resendOf_def MQTT_Publish_def Let_def)

lemma liveRecords_drop_live:
  "i < length tbl \<Longrightarrow> isLive (tbl ! i) \<Longrightarrow>
     liveRecords (drop i tbl) = tbl ! i # liveRecords (drop (i + 1) tbl)"
  by (simp add: liveRecords_def Cons_nth_drop_Suc [symmetric])

lemma liveRecords_drop_free:
  "i < length tbl \<Longrightarrow> \<not> isLive (tbl ! i) \<Longrightarrow>
     liveRecords (drop i tbl) = liveRecords (drop (i + 1) tbl)"
  by (simp add: liveRecords_def Cons_nth_drop_Suc [symmetric])

lemma markDuplicate_drop:
  "i < length tbl \<Longrightarrow>
     take i tbl @ map markDuplicate (drop i tbl) =
     take (i + 1) (tbl[i := markDuplicate (tbl ! i)])
       @ map markDuplicate (drop (i + 1) (tbl[i := markDuplicate (tbl ! i)]))"
  by (simp add: Cons_nth_drop_Suc [symmetric] take_Suc_conv_app_nth)

lemma markDuplicate_free: "\<not> isLive p \<Longrightarrow> markDuplicate p = p"
  by (simp add: markDuplicate_def)

lemma handlePublishResend_loop_all_sent:
  assumes "length (outgoingPublishPackets st) = MAX_OUTGOING_PUBLISHES"
    and "\<forall>j < length (liveRecords (drop i (outgoingPublishPackets st))).
           publishStatus env (length (publishLog st) + j) = MQTTSuccess"
  shows "handlePublishResend_loop env i st =
     (max i MAX_OUTGOING_PUBLISHES,
      st\<lparr>outgoingPublishPackets :=
            take i (outgoingPublishPackets st) @ map markDuplicate (drop i (outgoingPublishPackets st)),
          publishLog := publishLog st
            @ map resendOf (liveRecords (drop i (outgoingPublishPackets st)))\<rparr>)"
  using assms
proof (induction "MAX_OUTGOING_PUBLISHES - i" arbitrary: i st)
  case 0
  then have fin: "\<not> i < MAX_OUTGOING_PUBLISHES" by simp
  with "0.prems"(1) have "drop i (outgoingPublishPackets st) = []" by simp
  with fin "0.prems"(1) show ?case
    by (simp add: handlePublishResend_loop_done liveRecords_def max_def)
next
  case (Suc d)
  let ?tbl = "outgoingPublishPackets st"
  from Suc.hyps(2) have i: "i < MAX_OUTGOING_PUBLISHES" by simp
  with Suc.prems(1) have il: "i < length ?tbl" by simp
  from Suc.hyps(2) have d: "d = MAX_OUTGOING_PUBLISHES - (i + 1)" by simp
  from i have mx: "max (i + 1) MAX_OUTGOING_PUBLISHES = max i MAX_OUTGOING_PUBLISHES" by simp
  show ?case
  proof (cases "isLive (?tbl ! i)")
    case False
    from il False have lr: "liveRecords (drop i ?tbl) = liveRecords (drop (i + 1) ?tbl)"
      by (rule liveRecords_drop_free)
    with Suc.prems(2) have "\<forall>j < length (liveRecords (drop (i + 1) ?tbl)).
           publishStatus env (length (publishLog st) + j) = MQTTSuccess" by simp
    from Suc.hyps(1) [OF d Suc.prems(1) this]
    have "handlePublishResend_loop env (i + 1) st =
       (max (i + 1) MAX_OUTGOING_PUBLISHES,
        st\<lparr>outgoingPublishPackets := take (i + 1) ?tbl @ map markDuplicate (drop (i + 1) ?tbl),
            publishLog := publishLog st @ map resendOf (liveRecords (drop (i + 1) ?tbl))\<rparr>)" .
    moreover from il False
    have "take (i + 1) ?tbl @ map markDuplicate (drop (i + 1) ?tbl)
        = take i ?tbl @ map markDuplicate (drop i ?tbl)"
      by (simp add: Cons_nth_drop_Suc [symmetric] take_Suc_conv_app_nth markDuplicate_free)
    ultimately show ?thesis
      using i False lr mx by (simp add: handlePublishResend_loop_free)
  next
    case True
    let ?st2 = "st\<lparr>outgoingPublishPackets := ?tbl[i := markDuplicate (?tbl ! i)],
                    publishLog := publishLog st @ [resendOf (?tbl ! i)]\<rparr>"
    from il True have lr: "liveRecords (drop i ?tbl) = ?tbl ! i # liveRecords (drop (i + 1) ?tbl)"
      by (rule liveRecords_drop_live)
    with Suc.prems(2) have ok0: "publishStatus env (length (publishLog st)) = MQTTSuccess"
      by auto
    have len2: "length (outgoingPublishPackets ?st2) = MAX_OUTGOING_PUBLISHES"
      using Suc.prems(1) by simp
    have dr: "drop (i + 1) (outgoingPublishPackets ?st2) = drop (i + 1) ?tbl" by simp
    have "\<forall>j < length (liveRecords (drop (i + 1) (outgoingPublishPackets ?st2))).
           publishStatus env (length (publishLog ?st2) + j) = MQTTSuccess"
    proof (intro allI impI)
      fix j assume "j < length (liveRecords (drop (i + 1) (outgoingPublishPackets ?st2)))"
      with dr lr have "Suc j < length (liveRecords (drop i ?tbl))" by simp
      with Suc.prems(2) have "publishStatus env (length (publishLog st) + Suc j) = MQTTSuccess"
        by blast
      then show "publishStatus env (length (publishLog ?st2) + j) = MQTTSuccess" by simp
    qed
    from Suc.hyps(1) [OF d len2 this]
    have rec: "handlePublishResend_loop env (i + 1) ?st2 =
       (max (i + 1) MAX_OUTGOING_PUBLISHES,
        ?st2\<lparr>outgoingPublishPackets := take (i + 1) (outgoingPublishPackets ?st2)
               @ map markDuplicate (drop (i + 1) (outgoingPublishPackets ?st2)),
            publishLog := publishLog ?st2
               @ map resendOf (liveRecords (drop (i + 1) (outgoingPublishPackets ?st2)))\<rparr>)" .
    from il have tk: "take i ?tbl @ map markDuplicate (drop i ?tbl) =
        take (i + 1) (outgoingPublishPackets ?st2)
          @ map markDuplicate (drop (i + 1) (outgoingPublishPackets ?st2))"
      using markDuplicate_drop [of i ?tbl] by simp
    have "handlePublishResend_loop env i st = handlePublishResend_loop env (i + 1) ?st2"
      using i True ok0 by (simp add: handlePublishResend_loop_live Let_def)
    with rec tk lr dr mx show ?thesis by simp
  qed
qed

lemma handlePublishResend_loop_stops:
  assumes "length (outgoingPublishPackets st) = MAX_OUTGOING_PUBLISHES"
    and "j < length (liveRecords (drop i (outgoingPublishPackets st)))"
    and "\<forall>m < j. publishStatus env (length (publishLog st) + m) = MQTTSuccess"
    and "publishStatus env (length (publishLog st) + j) \<noteq> MQTTSuccess"
  shows "\<exists>s st'. handlePublishResend_loop env i st = (s, st') \<and> i \<le> s \<and>
           s < MAX_OUTGOING_PUBLISHES \<and>
           outgoingPublishPackets st ! s = liveRecords (drop i (outgoingPublishPackets st)) ! j \<and>
           publishLog st' = publishLog st
             @ take (j + 1) (map resendOf (liveRecords (drop i (outgoingPublishPackets st)))) \<and>
           length (outgoingPublishPackets st') = MAX_OUTGOING_PUBLISHES \<and>
           drop (s + 1) (outgoingPublishPackets st') = drop (s + 1) (outgoingPublishPackets st)"
  using assms
proof (induction "MAX_OUTGOING_PUBLISHES - i" arbitrary: i st j)
  case 0
  then have "drop i (outgoingPublishPackets st) = []" by simp
  with "0.prems"(2) show ?case by (simp add: liveRecords_def)
next
  case (Suc d)
  let ?tbl = "outgoingPublishPackets st"
  from Suc.hyps(2) have i: "i < MAX_OUTGOING_PUBLISHES" by simp
  with Suc.prems(1) have il: "i < length ?tbl" by simp
  from Suc.hyps(2) have d: "d = MAX_OUTGOING_PUBLISHES - (i + 1)" by simp
  show ?case
  proof (cases "isLive (?tbl ! i)")
    case False
    from il False have lr: "liveRecords (drop i ?tbl) = liveRecords (drop (i + 1) ?tbl)"
      by (rule liveRecords_drop_free)
    from Suc.prems(2) lr have j: "j < length (liveRecords (drop (i + 1) ?tbl))" by simp
    from Suc.hyps(1) [OF d Suc.prems(1) j Suc.prems(3,4)]
    obtain s st' where r: "handlePublishResend_loop env (i + 1) st = (s, st')" "i + 1 \<le> s"
        "s < MAX_OUTGOING_PUBLISHES"
        "?tbl ! s = liveRecords (drop (i + 1) ?tbl) ! j"
        "publishLog st' = publishLog st
             @ take (j + 1) (map resendOf (liveRecords (drop (i + 1) ?tbl)))"
        "length (outgoingPublishPackets st') = MAX_OUTGOING_PUBLISHES"
        "drop (s + 1) (outgoingPublishPackets st') = drop (s + 1) ?tbl"
      by blast
    from i False have "handlePublishResend_loop env i st = handlePublishResend_loop env (i + 1) st"
      by (rule handlePublishResend_loop_free)
    with r lr show ?thesis by simp
  next
    case True
    let ?st2 = "st\<lparr>outgoingPublishPackets := ?tbl[i := markDuplicate (?tbl ! i)],
                    publishLog := publishLog st @ [resendOf (?tbl ! i)]\<rparr>"
    from il True have lr: "liveRecords (drop i ?tbl) = ?tbl ! i # liveRecords (drop (i + 1) ?tbl)"
      by (rule liveRecords_drop_live)
    have step: "handlePublishResend_loop env i st =
        (if publishStatus env (length (publishLog st)) \<noteq> MQTTSuccess then (i, ?st2)
         else handlePublishResend_loop env (i + 1) ?st2)"
      using i True by (simp add: handlePublishResend_loop_live Let_def)
    have len2: "length (outgoingPublishPackets ?st2) = MAX_OUTGOING_PUBLISHES"
      using Suc.prems(1) by simp
    have dr: "drop (i + 1) (outgoingPublishPackets ?st2) = drop (i + 1) ?tbl" by simp
    show ?thesis
    proof (cases j)
      case 0
      with Suc.prems(4) have "publishStatus env (length (publishLog st)) \<noteq> MQTTSuccess" by simp
      with step have "handlePublishResend_loop env i st = (i, ?st2)" by simp
      with 0 i lr len2 dr show ?thesis by simp
    next
      case (Suc j')
      with Suc.prems(3) have "publishStatus env (length (publishLog st)) = MQTTSuccess" by auto
      with step have eq: "handlePublishResend_loop env i st = handlePublishResend_loop env (i + 1) ?st2"
        by simp
      from Suc Suc.prems(2) lr dr
      have j': "j' < length (liveRecords (drop (i + 1) (outgoingPublishPackets ?st2)))" by simp
      have ok: "\<forall>m < j'. publishStatus env (length (publishLog ?st2) + m) = MQTTSuccess"
      proof (intro allI impI)
        fix m assume "m < j'"
        with Suc have "Suc m < j" by simp
        with Suc.prems(3) have "publishStatus env (length (publishLog st) + Suc m) = MQTTSuccess"
          by blast
        then show "publishStatus env (length (publishLog ?st2) + m) = MQTTSuccess" by simp
      qed
      from Suc Suc.prems(4)
      have bad: "publishStatus env (length (publishLog ?st2) + j') \<noteq> MQTTSuccess" by simp
      from Suc.hyps(1) [OF d len2 j' ok bad]
      obtain s st' where r: "handlePublishResend_loop env (i + 1) ?st2 = (s, st')" "i + 1 \<le> s"
          "s < MAX_OUTGOING_PUBLISHES"
          "outgoingPublishPackets ?st2 ! s
             = liveRecords (drop (i + 1) (outgoingPublishPackets ?st2)) ! j'"
          "publishLog st' = publishLog ?st2
             @ take (j' + 1) (map resendOf (liveRecords (drop (i + 1) (outgoingPublishPackets ?st2))))"
          "length (outgoingPublishPackets st') = MAX_OUTGOING_PUBLISHES"
          "drop (s + 1) (outgoingPublishPackets st') = drop (s + 1) (outgoingPublishPackets ?st2)"
        by blast
      from r(2) have ne: "i \<noteq> s" by simp
      from r(4) ne dr have at: "?tbl ! s = liveRecords (drop i ?tbl) ! j"
        using lr Suc by simp
      from r(5) dr lr Suc have lg: "publishLog st' = publishLog st
             @ take (j + 1) (map resendOf (liveRecords (drop i ?tbl)))" by simp
      from r(7) r(2) have dr': "drop (s + 1) (outgoingPublishPackets st') = drop (s + 1) ?tbl"
        by simp
      from eq r(1) r(2) r(3) at lg r(6) dr' show ?thesis by simp
    qed
  qed
qed

lemma connect_loop_keeps:
  "outgoingPublishPackets (snd (connect_loop env params n st)) = outgoingPublishPackets st \<and>
   publishLog (snd (connect_loop env params n st)) = publishLog st \<and>
   seedLog (snd (connect_loop env params n st)) = seedLog st \<and>
   packetIdsIssued (snd (connect_loop env params n st)) = packetIdsIssued st \<and>
   globalAckPacketIdentifier (snd (connect_loop env params n st)) = globalAckPacketIdentifier st \<and>
   mqttSessionEstablished (snd (connect_loop env params n st)) = mqttSessionEstablished st"
proof (induction env params n st rule: connect_loop.induct)
  case (1 env reconnectParams nextRetryBackOff st)
  show ?case
    using "1.IH"
    by (subst (1 2 3 4 5 6) connect_loop.simps)
       (auto simp: Openssl_Connect_def generateRandomNumber_def Clock_SleepMs_def
             split: prod.splits BackoffAlgorithmStatus.splits)
qed

lemma connectToBroker_keeps:
  "outgoingPublishPackets (snd (connectToBrokerWithBackoffRetries env st)) = outgoingPublishPackets st \<and>
   publishLog (snd (connectToBrokerWithBackoffRetries env st)) = publishLog st"
  by (simp add: connectToBrokerWithBackoffRetries_def Let_def connect_loop_keeps srand_def)

lemma EstablishMqttSession_connected:
  assumes "connectToBrokerWithBackoffRetries env st = (True, st1)"
    and "initStatus env = MQTTSuccess" and "initStatefulQoSStatus env = MQTTSuccess"
    and "connectStatus env = MQTTSuccess"
  shows "EstablishMqttSession env publishCallback st =
     (let st3 = st1\<lparr>appPublishCallback := publishCallback, mqttSessionEstablished := True\<rparr>
      in if connectSessionPresent env then handlePublishResend env st3
         else (True, cleanupOutgoingPublishes st3))"
  using assms by (simp add: EstablishMqttSession_def Let_def)

lemmas connect_defs = connectToBrokerWithBackoffRetries_def connect_loop.simps Openssl_Connect_def
  generateRandomNumber_def Clock_SleepMs_def srand_def BackoffAlgorithm_GetNextBackoff_def
  BackoffAlgorithm_InitializeParams_def candidate_def CONNECTION_RETRY_MAX_ATTEMPTS_def
  CONNECTION_RETRY_MAX_BACKOFF_DELAY_MS_def CONNECTION_RETRY_BACKOFF_BASE_MS_def

lemmas resend_defs = isLive_def liveRecords_def markDuplicate_def resendOf_def

text \<open>
  Claim C4. For every prior state of the table: when the transport connects, the codec is
  initialised, and \<open>MQTT_Connect\<close> succeeds reporting no session present,
  \<open>EstablishMqttSession\<close> returns \<open>true\<close>, every slot of the table is zero (no live record
  remains), and \<open>MQTT_Publish\<close> has not been called.
\<close>

theorem C4_clean_session_clears_table:
  assumes conn: "fst (connectToBrokerWithBackoffRetries env st) = True"
    and init: "initStatus env = MQTTSuccess" "initStatefulQoSStatus env = MQTTSuccess"
      "connectStatus env = MQTTSuccess"
    and clean: "connectSessionPresent env = False"
  shows "\<exists>st'. EstablishMqttSession env publishCallback st = (True, st') \<and>
           outgoingPublishPackets st' = replicate MAX_OUTGOING_PUBLISHES zeroPublishPackets \<and>
           liveRecords (outgoingPublishPackets st') = [] \<and>
           publishLog st' = publishLog st"
proof -
  from conn obtain st1 where c: "connectToBrokerWithBackoffRetries env st = (True, st1)"
    by (cases "connectToBrokerWithBackoffRetries env st") simp
  from connectToBroker_keeps [of env st] c have keep: "publishLog st1 = publishLog st" by simp
  let ?st' = "cleanupOutgoingPublishes
                (st1\<lparr>appPublishCallback := publishCallback, mqttSessionEstablished := True\<rparr>)"
  from EstablishMqttSession_connected [OF c init, of publishCallback] clean
  have e: "EstablishMqttSession env publishCallback st = (True, ?st')" by (simp add: Let_def)
  have t: "outgoingPublishPackets ?st' = replicate MAX_OUTGOING_PUBLISHES zeroPublishPackets"
    by (simp add: cleanupOutgoingPublishes_def)
  have l: "liveRecords (outgoingPublishPackets ?st') = []"
    by (simp add: cleanupOutgoingPublishes_def liveRecords_def isLive_def zeroPublishPackets_def
        MQTT_PACKET_ID_INVALID_def)
  have p: "publishLog ?st' = publishLog st"
    using keep by (simp add: cleanupOutgoingPublishes_def)
  from e t l p show ?thesis by blast
qed

theorem C4_clean_session_clears_table_witness:
  "fst (connectToBrokerWithBackoffRetries cleanSessionEnv fullState) = True \<and>
   connectSessionPresent cleanSessionEnv = False \<and>
   fst (EstablishMqttSession cleanSessionEnv None fullState) = True \<and>
   outgoingPublishPackets (snd (EstablishMqttSession cleanSessionEnv None fullState))
     = replicate MAX_OUTGOING_PUBLISHES zeroPublishPackets \<and>
   publishLog (snd (EstablishMqttSession cleanSessionEnv None fullState)) = []"
proof -
  have conn: "fst (connectToBrokerWithBackoffRetries cleanSessionEnv fullState) = True"
    by (simp add: cleanSessionEnv_def sample_defs connect_defs)
  have init: "initStatus cleanSessionEnv = MQTTSuccess"
      "initStatefulQoSStatus cleanSessionEnv = MQTTSuccess"
      "connectStatus cleanSessionEnv = MQTTSuccess"
    by (simp_all add: cleanSessionEnv_def sample_defs)
  have clean: "connectSessionPresent cleanSessionEnv = False"
    by (simp add: cleanSessionEnv_def)
  have log: "publishLog fullState = []" by (simp add: sample_defs)
  from C4_clean_session_clears_table [OF conn init clean, of None] log
  obtain st' where "EstablishMqttSession cleanSessionEnv None fullState = (True, st')"
    "outgoingPublishPackets st' = replicate MAX_OUTGOING_PUBLISHES zeroPublishPackets"
    "publishLog st' = []"
    by auto
  with conn clean show ?thesis by simp
qed

lemma resendOf_fields:
  "dup (fst (resendOf p)) = True \<and> qos (fst (resendOf p)) = qos (pubInfo p) \<and>
   pTopicName (fst (resendOf p)) = pTopicName (pubInfo p) \<and>
   topicNameLength (fst (resendOf p)) = topicNameLength (pubInfo p) \<and>
   pPayload (fst (resendOf p)) = pPayload (pubInfo p) \<and>
   payloadLength (fst (resendOf p)) = payloadLength (pubInfo p) \<and>
   retain (fst (resendOf p)) = retain (pubInfo p) \<and>
   snd (resendOf p) = packetId p"
  by (simp add: resendOf_def)

text \<open>
  Claim C1. When the connection completes with a session present and the table holds
  \<open>k\<close> live records: every resend carries the stored topic, payload, QoS and packet
  identifier with the duplicate flag set; if every resend succeeds, \<open>MQTT_Publish\<close> is called
  exactly \<open>k\<close> times, once per live slot in ascending slot order, and \<open>true\<close> is returned;
  if the resend of the \<open>j\<close>-th live record is the first to fail, the scan stops at its slot
  (exactly \<open>j + 1\<close> calls were made, the slots behind it are untouched) and \<open>false\<close> is
  returned.
\<close>

theorem C1_resumed_session_resends:
  assumes len: "length (outgoingPublishPackets st) = MAX_OUTGOING_PUBLISHES"
    and conn: "fst (connectToBrokerWithBackoffRetries env st) = True"
    and init: "initStatus env = MQTTSuccess" "initStatefulQoSStatus env = MQTTSuccess"
      "connectStatus env = MQTTSuccess"
    and resumed: "connectSessionPresent env = True"
  shows
    "(\<forall>p. dup (fst (resendOf p)) = True \<and> qos (fst (resendOf p)) = qos (pubInfo p) \<and>
          pTopicName (fst (resendOf p)) = pTopicName (pubInfo p) \<and>
          topicNameLength (fst (resendOf p)) = topicNameLength (pubInfo p) \<and>
          pPayload (fst (resendOf p)) = pPayload (pubInfo p) \<and>
          payloadLength (fst (resendOf p)) = payloadLength (pubInfo p) \<and>
          snd (resendOf p) = packetId p) \<and>
     ((\<forall>j < length (liveRecords (outgoingPublishPackets st)).
          publishStatus env (length (publishLog st) + j) = MQTTSuccess) \<longrightarrow>
        (\<exists>st'. EstablishMqttSession env publishCallback st = (True, st') \<and>
           publishLog st' = publishLog st @ map resendOf (liveRecords (outgoingPublishPackets st)) \<and>
           outgoingPublishPackets st' = map markDuplicate (outgoingPublishPackets st))) \<and>
     (\<forall>j < length (liveRecords (outgoingPublishPackets st)).
          (\<forall>m < j. publishStatus env (length (publishLog st) + m) = MQTTSuccess) \<and>
          publishStatus env (length (publishLog st) + j) \<noteq> MQTTSuccess \<longrightarrow>
        (\<exists>s st'. EstablishMqttSession env publishCallback st = (False, st') \<and>
           s < MAX_OUTGOING_PUBLISHES \<and>
           outgoingPublishPackets st ! s = liveRecords (outgoingPublishPackets st) ! j \<and>
           publishLog st' = publishLog st
             @ take (j + 1) (map resendOf (liveRecords (outgoingPublishPackets st))) \<and>
           drop (s + 1) (outgoingPublishPackets st') = drop (s + 1) (outgoingPublishPackets st)))"
proof -
  from conn obtain st1 where c: "connectToBrokerWithBackoffRetries env st = (True, st1)"
    by (cases "connectToBrokerWithBackoffRetries env st") simp
  let ?st3 = "st1\<lparr>appPublishCallback := publishCallback, mqttSessionEstablished := True\<rparr>"
  let ?tbl = "outgoingPublishPackets st"
  from connectToBroker_keeps [of env st] c
  have tbl3: "outgoingPublishPackets ?st3 = ?tbl" and log3: "publishLog ?st3 = publishLog st"
    by simp_all
  from len tbl3 have len3: "length (outgoingPublishPackets ?st3) = MAX_OUTGOING_PUBLISHES" by simp
  from EstablishMqttSession_connected [OF c init, of publishCallback] resumed
  have e: "EstablishMqttSession env publishCallback st = handlePublishResend env ?st3"
    by (simp add: Let_def)
  have all_sent: "\<exists>st'. EstablishMqttSession env publishCallback st = (True, st') \<and>
           publishLog st' = publishLog st @ map resendOf (liveRecords ?tbl) \<and>
           outgoingPublishPackets st' = map markDuplicate ?tbl"
    if ok: "\<forall>j < length (liveRecords ?tbl). publishStatus env (length (publishLog st) + j) = MQTTSuccess"
  proof -
    from ok tbl3 log3
    have "\<forall>j < length (liveRecords (drop 0 (outgoingPublishPackets ?st3))).
           publishStatus env (length (publishLog ?st3) + j) = MQTTSuccess" by simp
    from handlePublishResend_loop_all_sent [OF len3 this]
    have "handlePublishResend_loop env 0 ?st3 =
       (MAX_OUTGOING_PUBLISHES,
        ?st3\<lparr>outgoingPublishPackets := map markDuplicate ?tbl,
              publishLog := publishLog st @ map resendOf (liveRecords ?tbl)\<rparr>)"
      using tbl3 log3 by simp
    with e show ?thesis by (simp add: handlePublishResend_def)
  qed
  have stops: "\<exists>s st'. EstablishMqttSession env publishCallback st = (False, st') \<and>
           s < MAX_OUTGOING_PUBLISHES \<and> ?tbl ! s = liveRecords ?tbl ! j \<and>
           publishLog st' = publishLog st @ take (j + 1) (map resendOf (liveRecords ?tbl)) \<and>
           drop (s + 1) (outgoingPublishPackets st') = drop (s + 1) ?tbl"
    if j: "j < length (liveRecords ?tbl)"
      and ok: "\<forall>m < j. publishStatus env (length (publishLog st) + m) = MQTTSuccess"
      and bad: "publishStatus env (length (publishLog st) + j) \<noteq> MQTTSuccess"
    for j
  proof -
    from j tbl3 have j3: "j < length (liveRecords (drop 0 (outgoingPublishPackets ?st3)))" by simp
    from ok log3 have ok3: "\<forall>m < j. publishStatus env (length (publishLog ?st3) + m) = MQTTSuccess"
      by simp
    from bad log3 have bad3: "publishStatus env (length (publishLog ?st3) + j) \<noteq> MQTTSuccess"
      by simp
    from handlePublishResend_loop_stops [OF len3 j3 ok3 bad3]
    obtain s st' where r: "handlePublishResend_loop env 0 ?st3 = (s, st')"
        "s < MAX_OUTGOING_PUBLISHES"
        "outgoingPublishPackets ?st3 ! s = liveRecords (drop 0 (outgoingPublishPackets ?st3)) ! j"
        "publishLog st' = publishLog ?st3
           @ take (j + 1) (map resendOf (liveRecords (drop 0 (outgoingPublishPackets ?st3))))"
        "drop (s + 1) (outgoingPublishPackets st') = drop (s + 1) (outgoingPublishPackets ?st3)"
      by blast
    from r(1,2) e have "EstablishMqttSession env publishCallback st = (False, st')"
      by (simp add: handlePublishResend_def)
    with r(2-5) tbl3 log3 show ?thesis by auto
  qed
  from all_sent stops resendOf_fields show ?thesis by blast
qed

theorem C1_resumed_session_resends_witness:
  "length (outgoingPublishPackets threeLiveState) = MAX_OUTGOING_PUBLISHES \<and>
   fst (connectToBrokerWithBackoffRetries sampleEnv threeLiveState) = True \<and>
   connectSessionPresent sampleEnv = True \<and>
   length (liveRecords (outgoingPublishPackets threeLiveState)) = 3 \<and>
   fst (EstablishMqttSession sampleEnv None threeLiveState) = True \<and>
   publishLog (snd (EstablishMqttSession sampleEnv None threeLiveState))
     = [resendOf (sampleSlot 7), resendOf (sampleSlot 9), resendOf (sampleSlot 11)] \<and>
   publishStatus secondSendFailsEnv 1 \<noteq> MQTTSuccess \<and>
   fst (EstablishMqttSession secondSendFailsEnv None threeLiveState) = False \<and>
   publishLog (snd (EstablishMqttSession secondSendFailsEnv None threeLiveState))
     = [resendOf (sampleSlot 7), resendOf (sampleSlot 9)]"
proof -
  have len: "length (outgoingPublishPackets threeLiveState) = MAX_OUTGOING_PUBLISHES"
    by (simp add: threeLiveState_def sample_defs table_defs)
  have conn: "fst (connectToBrokerWithBackoffRetries sampleEnv threeLiveState) = True"
    by (simp add: sample_defs connect_defs)
  have conn2: "fst (connectToBrokerWithBackoffRetries secondSendFailsEnv threeLiveState) = True"
    by (simp add: secondSendFailsEnv_def sample_defs connect_defs)
  have init: "initStatus sampleEnv = MQTTSuccess" "initStatefulQoSStatus sampleEnv = MQTTSuccess"
      "connectStatus sampleEnv = MQTTSuccess"
    by (simp_all add: sample_defs)
  have init2: "initStatus secondSendFailsEnv = MQTTSuccess"
      "initStatefulQoSStatus secondSendFailsEnv = MQTTSuccess"
      "connectStatus secondSendFailsEnv = MQTTSuccess"
    by (simp_all add: secondSendFailsEnv_def sample_defs)
  have resumed: "connectSessionPresent sampleEnv = True" by (simp add: sample_defs)
  have resumed2: "connectSessionPresent secondSendFailsEnv = True"
    by (simp add: secondSendFailsEnv_def sample_defs)
  have live: "liveRecords (outgoingPublishPackets threeLiveState)
      = [sampleSlot 7, sampleSlot 9, sampleSlot 11]"
    by (simp add: threeLiveState_def sample_defs table_defs resend_defs)
  have log: "publishLog threeLiveState = []" by (simp add: threeLiveState_def sample_defs)
  have ok: "\<forall>j < length (liveRecords (outgoingPublishPackets threeLiveState)).
      publishStatus sampleEnv (length (publishLog threeLiveState) + j) = MQTTSuccess"
    by (simp add: sample_defs)
  have bad: "(1::nat) < length (liveRecords (outgoingPublishPackets threeLiveState))"
    "\<forall>m < (1::nat). publishStatus secondSendFailsEnv (length (publishLog threeLiveState) + m)
        = MQTTSuccess"
    "publishStatus secondSendFailsEnv (length (publishLog threeLiveState) + 1) \<noteq> MQTTSuccess"
    by (simp_all add: live log secondSendFailsEnv_def)
  from C1_resumed_session_resends [OF len conn init resumed, of None] ok
  obtain st' where a: "EstablishMqttSession sampleEnv None threeLiveState = (True, st')"
    "publishLog st' = publishLog threeLiveState
       @ map resendOf (liveRecords (outgoingPublishPackets threeLiveState))"
    by blast
  from C1_resumed_session_resends [OF len conn2 init2 resumed2, of None] bad
  obtain st'' where b: "EstablishMqttSession secondSendFailsEnv None threeLiveState = (False, st'')"
    "publishLog st'' = publishLog threeLiveState
       @ take (1 + 1) (map resendOf (liveRecords (outgoingPublishPackets threeLiveState)))"
    by blast
  from bad(3) log have bad1: "publishStatus secondSendFailsEnv 1 \<noteq> MQTTSuccess" by simp
  from len conn resumed a b live log bad1 show ?thesis by simp
qed

section \<open>Backoff and the connect retry loop\<close>

lemma GetNextBackoff_Success:
  "attempt s < maxAttempts s \<Longrightarrow>
     BackoffAlgorithm_GetNextBackoff s r n =
       (BackoffAlgorithmSuccess, unat r mod (candidate s + 1), s\<lparr>attempt := attempt s + 1\<rparr>)"
  by (simp add: BackoffAlgorithm_GetNextBackoff_def Let_def)

lemma GetNextBackoff_Exhausted:
  "\<not> attempt s < maxAttempts s \<Longrightarrow>
     BackoffAlgorithm_GetNextBackoff s r n =
       (BackoffAlgorithmRetriesExhausted, n, s\<lparr>attempt := attempt s + 1\<rparr>)"
  by (simp add: BackoffAlgorithm_GetNextBackoff_def Let_def)

lemma connect_loop_connected:
  "tlsConnectOk env (tlsAttempts st) \<Longrightarrow>
     connect_loop env p n st = (True, st\<lparr>tlsAttempts := tlsAttempts st + 1\<rparr>)"
  by (simp add: connect_loop.simps [of env p n st] Openssl_Connect_def)

lemma connect_loop_exhausted:
  "\<not> tlsConnectOk env (tlsAttempts st) \<Longrightarrow> \<not> attempt p < maxAttempts p \<Longrightarrow>
     connect_loop env p n st =
       (False, st\<lparr>tlsAttempts := tlsAttempts st + 1, randCount := randCount st + 1\<rparr>)"
  by (simp add: connect_loop.simps [of env p n st] Openssl_Connect_def generateRandomNumber_def
      GetNextBackoff_Exhausted)

lemma connect_loop_retry:
  "\<not> tlsConnectOk env (tlsAttempts st) \<Longrightarrow> attempt p < maxAttempts p \<Longrightarrow>
     connect_loop env p n st =
       connect_loop env (p\<lparr>attempt := attempt p + 1\<rparr>)
         (unat (libcRand env (seedLog st) (randCount st)) mod (candidate p + 1))
         (st\<lparr>tlsAttempts := tlsAttempts st + 1, randCount := randCount st + 1,
             sleepLog := sleepLog st
               @ [unat (libcRand env (seedLog st) (randCount st)) mod (candidate p + 1)]\<rparr>)"
  by (simp add: connect_loop.simps [of env p n st] Openssl_Connect_def generateRandomNumber_def
      GetNextBackoff_Success Clock_SleepMs_def)

lemma connect_loop_sleeps:
  "\<exists>ds. sleepLog (snd (connect_loop env p n st)) = sleepLog st @ ds \<and>
        length ds \<le> maxAttempts p - attempt p \<and>
        (\<forall>k < length ds. ds ! k \<le> min (base p * 2 ^ (attempt p + k)) (cap p))"
proof (induction "maxAttempts p - attempt p" arbitrary: p n st)
  case 0
  then have ex: "\<not> attempt p < maxAttempts p" by simp
  show ?case
  proof (cases "tlsConnectOk env (tlsAttempts st)")
    case True
    then show ?thesis by (simp add: connect_loop_connected)
  next
    case False
    with ex show ?thesis by (simp add: connect_loop_exhausted)
  qed
next
  case (Suc d)
  then have lt: "attempt p < maxAttempts p" by simp
  show ?case
  proof (cases "tlsConnectOk env (tlsAttempts st)")
    case True
    then show ?thesis by (simp add: connect_loop_connected)
  next
    case False
    let ?delay = "unat (libcRand env (seedLog st) (randCount st)) mod (candidate p + 1)"
    let ?p' = "p\<lparr>attempt := attempt p + 1\<rparr>"
    let ?st' = "st\<lparr>tlsAttempts := tlsAttempts st + 1, randCount := randCount st + 1,
             sleepLog := sleepLog st @ [?delay]\<rparr>"
    from Suc.hyps(2) have d: "d = maxAttempts ?p' - attempt ?p'" by simp
    from Suc.hyps(1) [OF d, of ?delay ?st']
    obtain ds where ds: "sleepLog (snd (connect_loop env ?p' ?delay ?st')) = sleepLog ?st' @ ds"
      "length ds \<le> maxAttempts ?p' - attempt ?p'"
      "\<forall>k < length ds. ds ! k \<le> min (base ?p' * 2 ^ (attempt ?p' + k)) (cap ?p')"
      by blast
    from False lt have eq: "connect_loop env p n st = connect_loop env ?p' ?delay ?st'"
      by (rule connect_loop_retry)
    have "?delay \<le> candidate p" by (simp add: less_Suc_eq_le [symmetric])
    then have d0: "?delay \<le> min (base p * 2 ^ attempt p) (cap p)" by (simp add: candidate_def)
    have bound: "\<forall>k < length (?delay # ds). (?delay # ds) ! k \<le> min (base p * 2 ^ (attempt p + k)) (cap p)"
    proof (intro allI impI)
      fix k assume k: "k < length (?delay # ds)"
      show "(?delay # ds) ! k \<le> min (base p * 2 ^ (attempt p + k)) (cap p)"
      proof (cases k)
        case 0
        with d0 show ?thesis by simp
      next
        case (Suc k')
        with k have "k' < length ds" by simp
        with ds(3) have "ds ! k' \<le> min (base ?p' * 2 ^ (attempt ?p' + k')) (cap ?p')" by blast
        with Suc show ?thesis by simp
      qed
    qed
    from ds(1) eq have "sleepLog (snd (connect_loop env p n st)) = sleepLog st @ (?delay # ds)"
      by simp
    moreover from ds(2) lt have "length (?delay # ds) \<le> maxAttempts p - attempt p" by simp
    ultimately show ?thesis using bound by blast
  qed
qed

lemma connect_loop_all_fail:
  assumes "\<forall>k \<le> maxAttempts p - attempt p. \<not> tlsConnectOk env (tlsAttempts st + k)"
  shows "fst (connect_loop env p n st) = False \<and>
         tlsAttempts (snd (connect_loop env p n st)) = tlsAttempts st + (maxAttempts p - attempt p) + 1 \<and>
         length (sleepLog (snd (connect_loop env p n st)))
           = length (sleepLog st) + (maxAttempts p - attempt p)"
  using assms
proof (induction "maxAttempts p - attempt p" arbitrary: p n st)
  case 0
  then have ex: "\<not> attempt p < maxAttempts p" by simp
  from "0.prems" have "\<not> tlsConnectOk env (tlsAttempts st)" by auto
  with ex "0.hyps" show ?case by (simp add: connect_loop_exhausted)
next
  case (Suc d)
  then have lt: "attempt p < maxAttempts p" by simp
  from Suc.prems have f0: "\<not> tlsConnectOk env (tlsAttempts st)" by auto
  let ?delay = "unat (libcRand env (seedLog st) (randCount st)) mod (candidate p + 1)"
  let ?p' = "p\<lparr>attempt := attempt p + 1\<rparr>"
  let ?st' = "st\<lparr>tlsAttempts := tlsAttempts st + 1, randCount := randCount st + 1,
           sleepLog := sleepLog st @ [?delay]\<rparr>"
  from Suc.hyps(2) have d: "d = maxAttempts ?p' - attempt ?p'" by simp
  have "\<forall>k \<le> maxAttempts ?p' - attempt ?p'. \<not> tlsConnectOk env (tlsAttempts ?st' + k)"
  proof (intro allI impI)
    fix k assume "k \<le> maxAttempts ?p' - attempt ?p'"
    with lt have "Suc k \<le> maxAttempts p - attempt p" by simp
    with Suc.prems have "\<not> tlsConnectOk env (tlsAttempts st + Suc k)" by blast
    then show "\<not> tlsConnectOk env (tlsAttempts ?st' + k)" by simp
  qed
  from Suc.hyps(1) [OF d this, of ?delay]
  have r: "fst (connect_loop env ?p' ?delay ?st') = False"
    "tlsAttempts (snd (connect_loop env ?p' ?delay ?st'))
       = tlsAttempts ?st' + (maxAttempts ?p' - attempt ?p') + 1"
    "length (sleepLog (snd (connect_loop env ?p' ?delay ?st')))
       = length (sleepLog ?st') + (maxAttempts ?p' - attempt ?p')"
    by blast+
  from f0 lt have eq: "connect_loop env p n st = connect_loop env ?p' ?delay ?st'"
    by (rule connect_loop_retry)
  from d have d': "maxAttempts ?p' - attempt ?p' = d" by simp
  from Suc.hyps(2) have D: "maxAttempts p - attempt p = Suc d" by simp
  have "tlsAttempts ?st' + d + 1 = tlsAttempts st + Suc d + 1" by simp
  moreover have "length (sleepLog ?st') + d = length (sleepLog st) + Suc d" by simp
  ultimately show ?case using r unfolding eq d' D by (simp only:)
qed

lemma initialReconnectParams_fields:
  "attempt initialReconnectParams = 0" "base initialReconnectParams = 500"
  "cap initialReconnectParams = 5000" "maxAttempts initialReconnectParams = 5"
  by (simp_all add: initialReconnectParams_def connect_defs)

lemma less_5_cases: "k < (5::nat) \<Longrightarrow> k = 0 \<or> k = 1 \<or> k = 2 \<or> k = 3 \<or> k = 4"
  by arith

lemma candidate_ceiling:
  "k < 5 \<Longrightarrow> min (500 * 2 ^ k) 5000 = [500, 1000, 2000, 4000, 5000 :: nat] ! k"
  by (drule less_5_cases) auto

lemma connectToBroker_unfold:
  "connectToBrokerWithBackoffRetries env st =
     connect_loop env initialReconnectParams 0
       (srand (word_of_int (clockNsec env (length (seedLog st)))) st)"
  by (simp add: connectToBrokerWithBackoffRetries_def Let_def initialReconnectParams_def)

text \<open>
  Claim C7. The candidate is \<open>min(base * 2^attempt, cap)\<close> and the attempt starts at 0.
  With the parameters of \<open>connectToBrokerWithBackoffRetries\<close> (base 500, cap 5000, at most 5
  attempts) the candidates of the successive calls are 500, 1000, 2000, 4000, 5000: each
  of the first five calls succeeds with a delay reduced onto \<open>[0, candidate]\<close> and
  increments the attempt, and the sixth call reports exhaustion. Every delay the connect
  loop sleeps is at most the candidate of its attempt, and there are at most five of
  them. When the transport fails six times in a row the function makes exactly six
  connection attempts, sleeps five times and returns \<open>false\<close>; and whenever the backoff
  reports exhaustion the loop returns \<open>false\<close> at once, without sleeping or connecting again.
\<close>

theorem C7_backoff_candidates_and_retry_loop:
  "candidate s = min (base s * 2 ^ attempt s) (cap s) \<and>
   attempt (BackoffAlgorithm_InitializeParams b c m) = 0 \<and>
   map (\<lambda>k. candidate (initialReconnectParams\<lparr>attempt := k\<rparr>)) [0, 1, 2, 3, 4]
     = [500, 1000, 2000, 4000, 5000] \<and>
   (\<forall>k < 5. BackoffAlgorithm_GetNextBackoff (initialReconnectParams\<lparr>attempt := k\<rparr>) r n =
      (BackoffAlgorithmSuccess,
       unat r mod (candidate (initialReconnectParams\<lparr>attempt := k\<rparr>) + 1),
       initialReconnectParams\<lparr>attempt := k + 1\<rparr>)) \<and>
   fst (BackoffAlgorithm_GetNextBackoff (initialReconnectParams\<lparr>attempt := 5\<rparr>) r n)
     = BackoffAlgorithmRetriesExhausted \<and>
   (\<exists>ds. sleepLog (snd (connectToBrokerWithBackoffRetries env st)) = sleepLog st @ ds \<and>
      length ds \<le> 5 \<and>
      (\<forall>k < length ds. ds ! k \<le> [500, 1000, 2000, 4000, 5000] ! k)) \<and>
   ((\<forall>k \<le> 5. \<not> tlsConnectOk env (tlsAttempts st + k)) \<longrightarrow>
      fst (connectToBrokerWithBackoffRetries env st) = False \<and>
      tlsAttempts (snd (connectToBrokerWithBackoffRetries env st)) = tlsAttempts st + 6 \<and>
      length (sleepLog (snd (connectToBrokerWithBackoffRetries env st)))
        = length (sleepLog st) + 5) \<and>
   (\<not> tlsConnectOk env (tlsAttempts st) \<and>
    fst (BackoffAlgorithm_GetNextBackoff p (libcRand env (seedLog st) (randCount st)) n)
      = BackoffAlgorithmRetriesExhausted \<longrightarrow>
      connect_loop env p n st =
        (False, st\<lparr>tlsAttempts := tlsAttempts st + 1, randCount := randCount st + 1\<rparr>))"
proof (intro conjI)
  show "candidate s = min (base s * 2 ^ attempt s) (cap s)" by (simp add: candidate_def)
  show "attempt (BackoffAlgorithm_InitializeParams b c m) = 0"
    by (simp add: BackoffAlgorithm_InitializeParams_def)
  show "map (\<lambda>k. candidate (initialReconnectParams\<lparr>attempt := k\<rparr>)) [0, 1, 2, 3, 4]
     = [500, 1000, 2000, 4000, 5000]"
    by (simp add: candidate_def initialReconnectParams_fields)
  show "\<forall>k < 5. BackoffAlgorithm_GetNextBackoff (initialReconnectParams\<lparr>attempt := k\<rparr>) r n =
      (BackoffAlgorithmSuccess,
       unat r mod (candidate (initialReconnectParams\<lparr>attempt := k\<rparr>) + 1),
       initialReconnectParams\<lparr>attempt := k + 1\<rparr>)"
    by (simp add: GetNextBackoff_Success initialReconnectParams_fields)
  show "fst (BackoffAlgorithm_GetNextBackoff (initialReconnectParams\<lparr>attempt := 5\<rparr>) r n)
     = BackoffAlgorithmRetriesExhausted"
    by (simp add: GetNextBackoff_Exhausted initialReconnectParams_fields)
  let ?st1 = "srand (word_of_int (clockNsec env (length (seedLog st)))) st"
  have s1: "sleepLog ?st1 = sleepLog st" "tlsAttempts ?st1 = tlsAttempts st"
    by (simp_all add: srand_def)
  show "\<exists>ds. sleepLog (snd (connectToBrokerWithBackoffRetries env st)) = sleepLog st @ ds \<and>
      length ds \<le> 5 \<and> (\<forall>k < length ds. ds ! k \<le> [500, 1000, 2000, 4000, 5000] ! k)"
  proof -
    from connect_loop_sleeps [of env initialReconnectParams 0 ?st1]
    obtain ds where ds: "sleepLog (snd (connect_loop env initialReconnectParams 0 ?st1))
          = sleepLog ?st1 @ ds" "length ds \<le> 5"
        "\<forall>k < length ds. ds ! k \<le> min (500 * 2 ^ k) 5000"
      by (auto simp: initialReconnectParams_fields)
    have "\<forall>k < length ds. ds ! k \<le> [500, 1000, 2000, 4000, 5000] ! k"
    proof (intro allI impI)
      fix k assume k: "k < length ds"
      with ds(2) have "k < 5" by simp
      then have "min (500 * 2 ^ k) 5000 = [500, 1000, 2000, 4000, 5000 :: nat] ! k"
        by (rule candidate_ceiling)
      with ds(3) k show "ds ! k \<le> [500, 1000, 2000, 4000, 5000] ! k" by auto
    qed
    with ds(1,2) s1 show ?thesis by (auto simp: connectToBroker_unfold)
  qed
  show "(\<forall>k \<le> 5. \<not> tlsConnectOk env (tlsAttempts st + k)) \<longrightarrow>
      fst (connectToBrokerWithBackoffRetries env st) = False \<and>
      tlsAttempts (snd (connectToBrokerWithBackoffRetries env st)) = tlsAttempts st + 6 \<and>
      length (sleepLog (snd (connectToBrokerWithBackoffRetries env st)))
        = length (sleepLog st) + 5"
  proof
    assume "\<forall>k \<le> 5. \<not> tlsConnectOk env (tlsAttempts st + k)"
    then have "\<forall>k \<le> maxAttempts initialReconnectParams - attempt initialReconnectParams.
        \<not> tlsConnectOk env (tlsAttempts ?st1 + k)"
      by (simp add: initialReconnectParams_fields s1)
    from connect_loop_all_fail [OF this, of 0] s1
    show "fst (connectToBrokerWithBackoffRetries env st) = False \<and>
      tlsAttempts (snd (connectToBrokerWithBackoffRetries env st)) = tlsAttempts st + 6 \<and>
      length (sleepLog (snd (connectToBrokerWithBackoffRetries env st)))
        = length (sleepLog st) + 5"
      by (simp add: connectToBroker_unfold initialReconnectParams_fields)
  qed
  show "\<not> tlsConnectOk env (tlsAttempts st) \<and>
    fst (BackoffAlgorithm_GetNextBackoff p (libcRand env (seedLog st) (randCount st)) n)
      = BackoffAlgorithmRetriesExhausted \<longrightarrow>
      connect_loop env p n st =
        (False, st\<lparr>tlsAttempts := tlsAttempts st + 1, randCount := randCount st + 1\<rparr>)"
  proof
    assume a: "\<not> tlsConnectOk env (tlsAttempts st) \<and>
      fst (BackoffAlgorithm_GetNextBackoff p (libcRand env (seedLog st) (randCount st)) n)
        = BackoffAlgorithmRetriesExhausted"
    then have "\<not> attempt p < maxAttempts p"
      by (auto simp: BackoffAlgorithm_GetNextBackoff_def Let_def split: if_splits)
    with a show "connect_loop env p n st =
        (False, st\<lparr>tlsAttempts := tlsAttempts st + 1, randCount := randCount st + 1\<rparr>)"
      by (simp add: connect_loop_exhausted)
  qed
qed

theorem C7_backoff_candidates_and_retry_loop_witness:
  "BackoffAlgorithm_GetNextBackoff (initialReconnectParams\<lparr>attempt := 2\<rparr>) 12345 0 =
     (BackoffAlgorithmSuccess, 339, initialReconnectParams\<lparr>attempt := 3\<rparr>) \<and>
   \<not> tlsConnectOk allFailEnv 5 \<and>
   fst (connectToBrokerWithBackoffRetries allFailEnv initialState) = False \<and>
   tlsAttempts (snd (connectToBrokerWithBackoffRetries allFailEnv initialState)) = 6 \<and>
   sleepLog (snd (connectToBrokerWithBackoffRetries allFailEnv initialState))
     = [321, 333, 339, 342, 2343] \<and>
   fst (BackoffAlgorithm_GetNextBackoff (initialReconnectParams\<lparr>attempt := 5\<rparr>) 12345 0)
     = BackoffAlgorithmRetriesExhausted \<and>
   connect_loop allFailEnv (initialReconnectParams\<lparr>attempt := 5\<rparr>) 0 initialState
     = (False, initialState\<lparr>tlsAttempts := 1, randCount := 1\<rparr>)"
proof -
  note t = C7_backoff_candidates_and_retry_loop [of initialReconnectParams 0 0 0 12345 0
      allFailEnv initialState "initialReconnectParams\<lparr>attempt := 5\<rparr>"]
  have ex: "\<not> tlsConnectOk allFailEnv (tlsAttempts initialState) \<and>
      fst (BackoffAlgorithm_GetNextBackoff (initialReconnectParams\<lparr>attempt := 5\<rparr>)
             (libcRand allFailEnv (seedLog initialState) (randCount initialState)) 0)
        = BackoffAlgorithmRetriesExhausted"
    by (simp add: allFailEnv_def initialReconnectParams_fields GetNextBackoff_Exhausted)
  from t ex have w4: "connect_loop allFailEnv (initialReconnectParams\<lparr>attempt := 5\<rparr>) 0 initialState
     = (False, initialState\<lparr>tlsAttempts := tlsAttempts initialState + 1,
                            randCount := randCount initialState + 1\<rparr>)"
    by blast
  from t have w5: "fst (BackoffAlgorithm_GetNextBackoff (initialReconnectParams\<lparr>attempt := 5\<rparr>) 12345 0)
     = BackoffAlgorithmRetriesExhausted"
    by blast
  have fail: "\<forall>k \<le> 5. \<not> tlsConnectOk allFailEnv (tlsAttempts initialState + k)"
    by (simp add: allFailEnv_def)
  have two: "(2::nat) < 5" by simp
  from t two have "BackoffAlgorithm_GetNextBackoff (initialReconnectParams\<lparr>attempt := 2\<rparr>) 12345 0 =
      (BackoffAlgorithmSuccess,
       unat (12345 :: 32 word) mod (candidate (initialReconnectParams\<lparr>attempt := 2\<rparr>) + 1),
       initialReconnectParams\<lparr>attempt := 2 + 1\<rparr>)"
    by blast
  then have w1: "BackoffAlgorithm_GetNextBackoff (initialReconnectParams\<lparr>attempt := 2\<rparr>) 12345 0 =
     (BackoffAlgorithmSuccess, 339, initialReconnectParams\<lparr>attempt := 3\<rparr>)"
    by (simp add: candidate_def initialReconnectParams_fields)
  from t fail have w2: "fst (connectToBrokerWithBackoffRetries allFailEnv initialState) = False"
    "tlsAttempts (snd (connectToBrokerWithBackoffRetries allFailEnv initialState))
       = tlsAttempts initialState + 6"
    by blast+
  have w3: "sleepLog (snd (connectToBrokerWithBackoffRetries allFailEnv initialState))
     = [321, 333, 339, 342, 2343]"
    by (simp add: allFailEnv_def sample_defs connect_defs)
  from w1 w2 w3 w4 w5 fail show ?thesis by (simp add: initialState_def allFailEnv_def)
qed

section \<open>Seeding the random number generator\<close>











section \<open>Waiting for an acknowledgment: correlation by identifier\<close>

lemmas packet_types = MQTT_PACKET_TYPE_PUBLISH_def MQTT_PACKET_TYPE_PUBACK_def
  MQTT_PACKET_TYPE_SUBACK_def MQTT_PACKET_TYPE_UNSUBACK_def MQTT_PACKET_TYPE_PINGRESP_def

lemma cleanupWithPacketID_loop_keeps:
  "cleanupWithPacketID_loop pid k st = Inr st' \<Longrightarrow>
     globalAckPacketIdentifier st' = globalAckPacketIdentifier st \<and>
     callbackLog st' = callbackLog st"
proof (induction pid k st rule: cleanupWithPacketID_loop.induct)
  case (1 pid index st)
  from "1.prems" show ?case
    by (subst (asm) cleanupWithPacketID_loop.simps)
       (auto simp: cleanupOutgoingPublishAt_def "1.IH" split: if_splits)
qed

lemma cleanupOutgoingPublishWithPacketID_keeps:
  "cleanupOutgoingPublishWithPacketID pid st = Inr st' \<Longrightarrow>
     globalAckPacketIdentifier st' = globalAckPacketIdentifier st \<and>
     callbackLog st' = callbackLog st"
  by (auto simp: cleanupOutgoingPublishWithPacketID_def split: if_splits
      dest: cleanupWithPacketID_loop_keeps)

lemma ack_not_publish:
  "isAck (pPacketInfo, pDeserializedInfo) \<Longrightarrow>
     (type pPacketInfo AND 0xF0) \<noteq> MQTT_PACKET_TYPE_PUBLISH"
  by (auto simp: isAck_def packet_types)

lemma mqttCallback_ack:
  assumes "mqttCallback pPacketInfo pDeserializedInfo st = Inr st'"
  shows "globalAckPacketIdentifier st' =
           (if isAck (pPacketInfo, pDeserializedInfo) then packetIdentifier pDeserializedInfo
            else globalAckPacketIdentifier st) \<and>
         callbackLog st' = callbackLog st"
proof (cases "(type pPacketInfo AND 0xF0) = MQTT_PACKET_TYPE_PUBLISH")
  case True
  then have "\<not> isAck (pPacketInfo, pDeserializedInfo)" using ack_not_publish by blast
  with True assms show ?thesis
    by (auto simp: mqttCallback_def Let_def split: option.splits if_splits)
next
  case False
  with assms show ?thesis
    by (auto simp: mqttCallback_def Let_def isAck_def packet_types split: if_splits
        dest: cleanupOutgoingPublishWithPacketID_keeps)
qed

lemma dispatchPackets_ack:
  "dispatchPackets ps st = Inr st' \<Longrightarrow>
     globalAckPacketIdentifier st' = lastAckIdentifier (globalAckPacketIdentifier st) ps \<and>
     callbackLog st' = callbackLog st @ ps"
proof (induction ps arbitrary: st)
  case Nil
  then show ?case by (simp add: lastAckIdentifier_def)
next
  case (Cons p ps)
  from Cons.prems obtain st1 where
    cb: "mqttCallback (fst p) (snd p) st = Inr st1" and
    rest: "dispatchPackets ps (st1\<lparr>callbackLog := callbackLog st1 @ [p]\<rparr>) = Inr st'"
    by (auto split: sum.splits)
  from mqttCallback_ack [OF cb]
  have a: "globalAckPacketIdentifier st1 =
      (if isAck p then packetIdentifier (snd p) else globalAckPacketIdentifier st)"
    "callbackLog st1 = callbackLog st" by simp_all
  from Cons.IH [OF rest] a show ?case by (simp add: lastAckIdentifier_def)
qed

lemma lastAckIdentifier_append:
  "lastAckIdentifier a (ps @ qs) = lastAckIdentifier (lastAckIdentifier a ps) qs"
  by (simp add: lastAckIdentifier_def)

lemma waitForPacketAck_loop_ack:
  "waitForPacketAck_loop steps expected deadline cur status st = Inr (status', cur', st') \<Longrightarrow>
     \<exists>pkts. callbackLog st' = callbackLog st @ pkts \<and>
       globalAckPacketIdentifier st' = lastAckIdentifier (globalAckPacketIdentifier st) pkts"
proof (induction steps arbitrary: cur status st)
  case Nil
  then have "st' = st"
    by (subst (asm) waitForPacketAck_loop.simps) (auto split: if_splits)
  then show ?case by (simp add: lastAckIdentifier_def)
next
  case (Cons step rest)
  show ?case
  proof (cases "globalAckPacketIdentifier st \<noteq> expected \<and> cur < deadline \<and>
         (status = MQTTSuccess \<or> status = MQTTNeedMoreBytes)")
    case False
    with Cons.prems have "st' = st"
      by (subst (asm) waitForPacketAck_loop.simps) (auto split: if_splits)
    then show ?thesis by (simp add: lastAckIdentifier_def)
  next
    case True
    with Cons.prems obtain st1 where
      d: "dispatchPackets (stepPackets step) st = Inr st1" and
      r: "waitForPacketAck_loop rest expected deadline (stepTime step) (stepStatus step) st1
            = Inr (status', cur', st')"
      by (subst (asm) waitForPacketAck_loop.simps)
         (auto simp: MQTT_ProcessLoop_def split: sum.splits)
    from Cons.IH [OF r] obtain pkts where
      p: "callbackLog st' = callbackLog st1 @ pkts"
         "globalAckPacketIdentifier st' = lastAckIdentifier (globalAckPacketIdentifier st1) pkts"
      by blast
    from dispatchPackets_ack [OF d] p
    have "callbackLog st' = callbackLog st @ (stepPackets step @ pkts) \<and>
       globalAckPacketIdentifier st' =
         lastAckIdentifier (globalAckPacketIdentifier st) (stepPackets step @ pkts)"
      by (simp add: lastAckIdentifier_append)
    then show ?thesis by blast
  qed
qed

lemma lastAckIdentifier_changed:
  "lastAckIdentifier a ps \<noteq> a \<Longrightarrow>
     \<exists>pre p post. ps = pre @ p # post \<and> isAckFor (lastAckIdentifier a ps) p \<and>
        (\<forall>q \<in> set post. \<not> isAck q)"
proof (induction ps rule: rev_induct)
  case Nil
  then show ?case by (simp add: lastAckIdentifier_def)
next
  case (snoc x xs)
  show ?case
  proof (cases "isAck x")
    case True
    then have "lastAckIdentifier a (xs @ [x]) = packetIdentifier (snd x)"
      by (simp add: lastAckIdentifier_def)
    with True have "xs @ [x] = xs @ x # [] \<and> isAckFor (lastAckIdentifier a (xs @ [x])) x \<and>
        (\<forall>q \<in> set []. \<not> isAck q)"
      by (simp add: isAckFor_def)
    then show ?thesis by blast
  next
    case False
    then have same: "lastAckIdentifier a (xs @ [x]) = lastAckIdentifier a xs"
      by (simp add: lastAckIdentifier_def)
    with snoc.prems have "lastAckIdentifier a xs \<noteq> a" by simp
    from snoc.IH [OF this] obtain pre p post where
      "xs = pre @ p # post" "isAckFor (lastAckIdentifier a xs) p" "\<forall>q \<in> set post. \<not> isAck q"
      by blast
    with False same have "xs @ [x] = pre @ p # (post @ [x]) \<and>
        isAckFor (lastAckIdentifier a (xs @ [x])) p \<and> (\<forall>q \<in> set (post @ [x]). \<not> isAck q)"
      by simp
    then show ?thesis by blast
  qed
qed

lemma waitForPacketAck_result:
  assumes "waitForPacketAck entryTime steps expected timeout st = Inr (ok, st')"
  shows "\<exists>pkts. callbackLog st' = callbackLog st @ pkts \<and>
           globalAckPacketIdentifier st' = lastAckIdentifier 0 pkts \<and>
           (ok \<longrightarrow> globalAckPacketIdentifier st' = expected)"
proof -
  let ?st0 = "st\<lparr>globalAckPacketIdentifier := 0\<rparr>"
  from assms obtain status cur where
    l: "waitForPacketAck_loop steps expected (entryTime + timeout) entryTime MQTTSuccess ?st0
          = Inr (status, cur, st')"
    and ok: "ok \<longrightarrow> globalAckPacketIdentifier st' = expected"
    by (auto simp: waitForPacketAck_def Let_def split: sum.splits if_splits)
  from waitForPacketAck_loop_ack [OF l] ok show ?thesis by simp
qed

lemma waitForPacketAck_True:
  assumes "expected \<noteq> MQTT_PACKET_ID_INVALID"
    and "waitForPacketAck entryTime steps expected timeout st = Inr (True, st')"
  shows "\<exists>pre p post. callbackLog st' = callbackLog st @ pre @ p # post \<and>
           isAckFor expected p \<and> (\<forall>q \<in> set post. \<not> isAck q)"
proof -
  from waitForPacketAck_result [OF assms(2)] obtain pkts where
    p: "callbackLog st' = callbackLog st @ pkts" "lastAckIdentifier 0 pkts = expected"
    by auto
  with assms(1) have "lastAckIdentifier 0 pkts \<noteq> 0" by (simp add: MQTT_PACKET_ID_INVALID_def)
  from lastAckIdentifier_changed [OF this] p show ?thesis by auto
qed

lemmas wait_defs = waitForPacketAck_def waitForPacketAck_loop.simps MQTT_ProcessLoop_def
  mqttCallback_def pubackPacket_def sampleSteps_def lateStep_def oneLiveState_def isAck_def
  isAckFor_def

text \<open>
  The identifier 0 is never issued for a request (it is the invalid identifier); passed as
  the expected identifier it would match the reset value at once.
\<close>

lemma waitForPacketAck_invalid_identifier:
  "waitForPacketAck entryTime steps MQTT_PACKET_ID_INVALID ulTimeout st
     = Inr (True, st\<lparr>globalAckPacketIdentifier := 0\<rparr>)"
  by (simp add: waitForPacketAck_def Let_def MQTT_PACKET_ID_INVALID_def
      waitForPacketAck_loop.simps [of steps 0])

text \<open>
  Claim C3. For an expected packet identifier (a valid one, that is, not 0):
  \<open>waitForPacketAck\<close> returns \<open>true\<close> only when, during the call, \<open>mqttCallback\<close> was handed
  an acknowledgment (SUBACK, UNSUBACK or PUBACK) carrying exactly that identifier, and no
  acknowledgment came after it; when every acknowledgment handed over carries another
  identifier the result is \<open>false\<close>; a loop iteration entered with status
  \<open>MQTTNeedMoreBytes\<close>, the identifier not yet matched and the deadline not reached runs
  the next protocol-loop step; and a loop that ends with \<open>MQTTNeedMoreBytes\<close> and the
  identifier matched returns \<open>true\<close>.
\<close>

theorem C3_ack_wait_matches_expected_identifier:
  assumes valid: "usPacketIdentifier \<noteq> MQTT_PACKET_ID_INVALID"
  shows
    "(waitForPacketAck entryTime steps usPacketIdentifier ulTimeout st = Inr (True, st') \<longrightarrow>
        (\<exists>pre p post. callbackLog st' = callbackLog st @ pre @ p # post \<and>
           isAckFor usPacketIdentifier p \<and> (\<forall>q \<in> set post. \<not> isAck q))) \<and>
     (waitForPacketAck entryTime steps usPacketIdentifier ulTimeout st = Inr (ok, st') \<and>
      callbackLog st' = callbackLog st @ pkts \<and>
      (\<forall>p \<in> set pkts. \<not> isAckFor usPacketIdentifier p) \<longrightarrow> ok = False) \<and>
     (globalAckPacketIdentifier st \<noteq> usPacketIdentifier \<and>
      ulCurrentTime < ulMqttProcessLoopTimeoutTime \<longrightarrow>
        waitForPacketAck_loop (step # rest) usPacketIdentifier ulMqttProcessLoopTimeoutTime
            ulCurrentTime MQTTNeedMoreBytes st =
          (case MQTT_ProcessLoop step st of
             Inl e \<Rightarrow> Inl e
           | Inr (eMqttStatus', st1) \<Rightarrow>
               waitForPacketAck_loop rest usPacketIdentifier ulMqttProcessLoopTimeoutTime
                 (stepTime step) eMqttStatus' st1)) \<and>
     (waitForPacketAck_loop steps usPacketIdentifier (entryTime + ulTimeout) entryTime MQTTSuccess
          (st\<lparr>globalAckPacketIdentifier := 0\<rparr>) = Inr (MQTTNeedMoreBytes, ulCurrentTime', st') \<and>
      globalAckPacketIdentifier st' = usPacketIdentifier \<longrightarrow>
        waitForPacketAck entryTime steps usPacketIdentifier ulTimeout st = Inr (True, st'))"
proof (intro conjI impI)
  assume "waitForPacketAck entryTime steps usPacketIdentifier ulTimeout st = Inr (True, st')"
  with valid show "\<exists>pre p post. callbackLog st' = callbackLog st @ pre @ p # post \<and>
           isAckFor usPacketIdentifier p \<and> (\<forall>q \<in> set post. \<not> isAck q)"
    by (rule waitForPacketAck_True)
next
  assume a: "waitForPacketAck entryTime steps usPacketIdentifier ulTimeout st = Inr (ok, st') \<and>
      callbackLog st' = callbackLog st @ pkts \<and>
      (\<forall>p \<in> set pkts. \<not> isAckFor usPacketIdentifier p)"
  show "ok = False"
  proof (rule ccontr)
    assume "ok \<noteq> False"
    with a have "waitForPacketAck entryTime steps usPacketIdentifier ulTimeout st = Inr (True, st')"
      by simp
    with valid obtain pre p post where
      "callbackLog st' = callbackLog st @ pre @ p # post" "isAckFor usPacketIdentifier p"
      using waitForPacketAck_True by blast
    with a show False by auto
  qed
next
  assume "globalAckPacketIdentifier st \<noteq> usPacketIdentifier \<and>
      ulCurrentTime < ulMqttProcessLoopTimeoutTime"
  then show "waitForPacketAck_loop (step # rest) usPacketIdentifier ulMqttProcessLoopTimeoutTime
            ulCurrentTime MQTTNeedMoreBytes st =
          (case MQTT_ProcessLoop step st of
             Inl e \<Rightarrow> Inl e
           | Inr (eMqttStatus', st1) \<Rightarrow>
               waitForPacketAck_loop rest usPacketIdentifier ulMqttProcessLoopTimeoutTime
                 (stepTime step) eMqttStatus' st1)"
    by (simp add: waitForPacketAck_loop.simps [of "step # rest"])
next
  assume "waitForPacketAck_loop steps usPacketIdentifier (entryTime + ulTimeout) entryTime MQTTSuccess
          (st\<lparr>globalAckPacketIdentifier := 0\<rparr>) = Inr (MQTTNeedMoreBytes, ulCurrentTime', st') \<and>
      globalAckPacketIdentifier st' = usPacketIdentifier"
  then show "waitForPacketAck entryTime steps usPacketIdentifier ulTimeout st = Inr (True, st')"
    by (simp add: waitForPacketAck_def Let_def)
qed

lemma sample_wait_run:
  "waitForPacketAck 100 sampleSteps 7 1000 oneLiveState =
     Inr (True, initialState\<lparr>globalAckPacketIdentifier := 7,
                             callbackLog := [pubackPacket 9, pubackPacket 7]\<rparr>)"
  by (simp add: wait_defs sample_defs table_defs packet_types replicate_5)

lemma late_wait_run:
  "waitForPacketAck 100 [lateStep] 7 1000 oneLiveState =
     Inr (False, oneLiveState\<lparr>globalAckPacketIdentifier := 9, callbackLog := [pubackPacket 9]\<rparr>)"
  by (simp add: wait_defs sample_defs table_defs packet_types replicate_5)

theorem C3_ack_wait_matches_expected_identifier_witness:
  "(7 :: 16 word) \<noteq> MQTT_PACKET_ID_INVALID \<and>
   waitForPacketAck 100 sampleSteps 7 1000 oneLiveState =
     Inr (True, initialState\<lparr>globalAckPacketIdentifier := 7,
                             callbackLog := [pubackPacket 9, pubackPacket 7]\<rparr>) \<and>
   (\<exists>pre p post. [pubackPacket 9, pubackPacket 7] = pre @ p # post \<and> isAckFor 7 p \<and>
      list_all (\<lambda>q. \<not> isAck q) post) \<and>
   list_all (\<lambda>p. \<not> isAckFor 7 p) [pubackPacket 9] \<and>
   fst (projr (waitForPacketAck 100 [lateStep] 7 1000 oneLiveState)) = False \<and>
   waitForPacketAck_loop sampleSteps 7 1100 100 MQTTNeedMoreBytes oneLiveState =
     waitForPacketAck_loop (tl sampleSteps) 7 1100 200 MQTTNeedMoreBytes oneLiveState \<and>
   waitForPacketAck_loop sampleSteps 7 (100 + 1000) 100 MQTTSuccess
       (oneLiveState\<lparr>globalAckPacketIdentifier := 0\<rparr>) =
     Inr (MQTTNeedMoreBytes, 400,
          initialState\<lparr>globalAckPacketIdentifier := 7,
                       callbackLog := [pubackPacket 9, pubackPacket 7]\<rparr>)"
proof -
  let ?st' = "initialState\<lparr>globalAckPacketIdentifier := 7,
                           callbackLog := [pubackPacket 9, pubackPacket 7]\<rparr>"
  let ?late = "oneLiveState\<lparr>globalAckPacketIdentifier := 9, callbackLog := [pubackPacket 9]\<rparr>"
  have valid: "(7 :: 16 word) \<noteq> MQTT_PACKET_ID_INVALID" by (simp add: table_defs)
  note a = C3_ack_wait_matches_expected_identifier [OF valid, where entryTime = 100
      and steps = sampleSteps and ulTimeout = 1000 and st = oneLiveState and st' = ?st'
      and ok = True and pkts = "[pubackPacket 9, pubackPacket 7]" and ulCurrentTime = 100
      and ulMqttProcessLoopTimeoutTime = 1100 and step = "hd sampleSteps"
      and rest = "tl sampleSteps" and ulCurrentTime' = 400]
  note b = C3_ack_wait_matches_expected_identifier [OF valid, where entryTime = 100
      and steps = "[lateStep]" and ulTimeout = 1000 and st = oneLiveState and st' = ?late
      and ok = False and pkts = "[pubackPacket 9]"]
  have log0: "callbackLog oneLiveState = []" by (simp add: oneLiveState_def sample_defs)
  from a sample_wait_run log0
  have w1: "\<exists>pre p post. [pubackPacket 9, pubackPacket 7] = pre @ p # post \<and> isAckFor 7 p \<and>
      list_all (\<lambda>q. \<not> isAck q) post"
    by (simp add: list_all_iff)
  have other: "\<forall>p \<in> set [pubackPacket 9]. \<not> isAckFor 7 p"
    by (simp add: isAckFor_def pubackPacket_def)
  from b late_wait_run other log0
  have w2: "fst (projr (waitForPacketAck 100 [lateStep] 7 1000 oneLiveState)) = False"
    by simp
  have pre: "globalAckPacketIdentifier oneLiveState \<noteq> 7 \<and> (100 :: 32 word) < 1100"
    by (simp add: oneLiveState_def sample_defs)
  have steps: "sampleSteps = hd sampleSteps # tl sampleSteps" by (simp add: sampleSteps_def)
  from a pre have "waitForPacketAck_loop (hd sampleSteps # tl sampleSteps) 7 1100 100
        MQTTNeedMoreBytes oneLiveState =
      (case MQTT_ProcessLoop (hd sampleSteps) oneLiveState of
         Inl e \<Rightarrow> Inl e
       | Inr (eMqttStatus', st1) \<Rightarrow>
           waitForPacketAck_loop (tl sampleSteps) 7 1100 (stepTime (hd sampleSteps))
             eMqttStatus' st1)"
    by blast
  with steps have w3: "waitForPacketAck_loop sampleSteps 7 1100 100 MQTTNeedMoreBytes oneLiveState =
     waitForPacketAck_loop (tl sampleSteps) 7 1100 200 MQTTNeedMoreBytes oneLiveState"
    by (simp add: sampleSteps_def MQTT_ProcessLoop_def)
  have w4: "waitForPacketAck_loop sampleSteps 7 (100 + 1000) 100 MQTTSuccess
       (oneLiveState\<lparr>globalAckPacketIdentifier := 0\<rparr>) = Inr (MQTTNeedMoreBytes, 400, ?st')"
    by (simp add: wait_defs sample_defs table_defs packet_types replicate_5)
  have w5: "globalAckPacketIdentifier ?st' = 7" by simp
  from a w4 w5 have "waitForPacketAck 100 sampleSteps 7 1000 oneLiveState = Inr (True, ?st')"
    by blast
  with valid w1 other w2 w3 w4 show ?thesis by (simp add: list_all_iff)
qed

text \<open>
  Claim C10. \<open>waitForPacketAck\<close> overwrites \<open>globalAckPacketIdentifier\<close> with 0 before the
  loop, so its result does not depend on the value left by an earlier acknowledgment. For
  a valid expected identifier it therefore never returns \<open>true\<close> without running a
  protocol-loop step (with no time left it returns \<open>false\<close>), and when it returns \<open>true\<close>
  an acknowledgment carrying the expected identifier was handed to \<open>mqttCallback\<close> during
  this call.
\<close>

theorem C10_wait_resets_last_acknowledged_identifier:
  "waitForPacketAck entryTime steps usPacketIdentifier ulTimeout
       (st\<lparr>globalAckPacketIdentifier := staleAck\<rparr>)
     = waitForPacketAck entryTime steps usPacketIdentifier ulTimeout st \<and>
   (usPacketIdentifier \<noteq> MQTT_PACKET_ID_INVALID \<longrightarrow>
      (waitForPacketAck entryTime [] usPacketIdentifier ulTimeout st = Inl ScriptExhausted \<or>
       waitForPacketAck entryTime [] usPacketIdentifier ulTimeout st
         = Inr (False, st\<lparr>globalAckPacketIdentifier := 0\<rparr>)) \<and>
      waitForPacketAck entryTime steps usPacketIdentifier 0 st
        = Inr (False, st\<lparr>globalAckPacketIdentifier := 0\<rparr>)) \<and>
   (usPacketIdentifier \<noteq> MQTT_PACKET_ID_INVALID \<and>
    waitForPacketAck entryTime steps usPacketIdentifier ulTimeout st = Inr (True, st') \<longrightarrow>
      (\<exists>pre p post. callbackLog st' = callbackLog st @ pre @ p # post \<and>
         isAckFor usPacketIdentifier p \<and> (\<forall>q \<in> set post. \<not> isAck q)))"
proof (intro conjI impI)
  show "waitForPacketAck entryTime steps usPacketIdentifier ulTimeout
       (st\<lparr>globalAckPacketIdentifier := staleAck\<rparr>)
     = waitForPacketAck entryTime steps usPacketIdentifier ulTimeout st"
    by (simp add: waitForPacketAck_def)
next
  assume valid: "usPacketIdentifier \<noteq> MQTT_PACKET_ID_INVALID"
  then show "waitForPacketAck entryTime [] usPacketIdentifier ulTimeout st = Inl ScriptExhausted \<or>
       waitForPacketAck entryTime [] usPacketIdentifier ulTimeout st
         = Inr (False, st\<lparr>globalAckPacketIdentifier := 0\<rparr>)"
    by (auto simp: waitForPacketAck_def Let_def MQTT_PACKET_ID_INVALID_def
        waitForPacketAck_loop.simps [of "[]"])
  from valid show "waitForPacketAck entryTime steps usPacketIdentifier 0 st
        = Inr (False, st\<lparr>globalAckPacketIdentifier := 0\<rparr>)"
    by (auto simp: waitForPacketAck_def Let_def MQTT_PACKET_ID_INVALID_def
        waitForPacketAck_loop.simps [of steps _ entryTime entryTime])
next
  assume "usPacketIdentifier \<noteq> MQTT_PACKET_ID_INVALID \<and>
    waitForPacketAck entryTime steps usPacketIdentifier ulTimeout st = Inr (True, st')"
  then show "\<exists>pre p post. callbackLog st' = callbackLog st @ pre @ p # post \<and>
         isAckFor usPacketIdentifier p \<and> (\<forall>q \<in> set post. \<not> isAck q)"
    using waitForPacketAck_True by blast
qed

theorem C10_wait_resets_last_acknowledged_identifier_witness:
  "globalAckPacketIdentifier staleAckState = 7 \<and>
   waitForPacketAck 100 [] 7 0 staleAckState = Inr (False, oneLiveState) \<and>
   waitForPacketAck 100 [] 7 1000 staleAckState = Inl ScriptExhausted \<and>
   waitForPacketAck 100 sampleSteps 7 1000 staleAckState =
     Inr (True, initialState\<lparr>globalAckPacketIdentifier := 7,
                             callbackLog := [pubackPacket 9, pubackPacket 7]\<rparr>) \<and>
   (\<exists>pre p post. [pubackPacket 9, pubackPacket 7] = pre @ p # post \<and> isAckFor 7 p \<and>
      list_all (\<lambda>q. \<not> isAck q) post)"
proof -
  let ?st' = "initialState\<lparr>globalAckPacketIdentifier := 7,
                           callbackLog := [pubackPacket 9, pubackPacket 7]\<rparr>"
  have valid: "(7 :: 16 word) \<noteq> MQTT_PACKET_ID_INVALID" by (simp add: table_defs)
  have stale: "staleAckState = oneLiveState\<lparr>globalAckPacketIdentifier := 7\<rparr>"
    by (simp add: staleAckState_def)
  have zero: "oneLiveState\<lparr>globalAckPacketIdentifier := 0\<rparr> = oneLiveState"
    by (simp add: oneLiveState_def sample_defs)
  have log0: "callbackLog oneLiveState = []" by (simp add: oneLiveState_def sample_defs)
  note a = C10_wait_resets_last_acknowledged_identifier [where entryTime = 100 and steps = sampleSteps
      and usPacketIdentifier = 7 and ulTimeout = 1000 and st = oneLiveState and staleAck = 7
      and st' = ?st']
  note b = C10_wait_resets_last_acknowledged_identifier [where entryTime = 100 and steps = "[]"
      and usPacketIdentifier = 7 and ulTimeout = 1000 and st = oneLiveState and staleAck = 7
      and st' = ?st']
  note c = C10_wait_resets_last_acknowledged_identifier [where entryTime = 100 and steps = "[]"
      and usPacketIdentifier = 7 and ulTimeout = 0 and st = oneLiveState and staleAck = 7
      and st' = ?st']
  from a sample_wait_run stale
  have w1: "waitForPacketAck 100 sampleSteps 7 1000 staleAckState = Inr (True, ?st')" by simp
  have w2: "waitForPacketAck 100 [] 7 0 staleAckState = Inr (False, oneLiveState)"
    using c valid zero stale by simp
  have w3: "waitForPacketAck 100 [] 7 1000 staleAckState = Inl ScriptExhausted"
    using b stale by (simp add: wait_defs sample_defs)
  from a valid sample_wait_run log0
  have w4: "\<exists>pre p post. [pubackPacket 9, pubackPacket 7] = pre @ p # post \<and> isAckFor 7 p \<and>
      list_all (\<lambda>q. \<not> isAck q) post"
    by (simp add: list_all_iff)
  have w0: "globalAckPacketIdentifier staleAckState = 7" by (simp add: staleAckState_def)
  from w0 w1 w2 w3 w4 show ?thesis by blast
qed

section \<open>Free slots stay cleared\<close>

text \<open>
  Every operation of the file keeps free slots entirely zero, provided the identifiers
  issued for new publishes are valid.
\<close>

lemma freeSlotsCleared_zero: "freeSlotsCleared (tbl[i := zeroPublishPackets])" if "freeSlotsCleared tbl"
  using that by (rule freeSlotsCleared_update) simp

lemma freeSlotsCleared_cleanupAt:
  "cleanupOutgoingPublishAt i st = Inr st' \<Longrightarrow> freeSlotsCleared (outgoingPublishPackets st) \<Longrightarrow>
     freeSlotsCleared (outgoingPublishPackets st')"
  by (auto simp: cleanupOutgoingPublishAt_def freeSlotsCleared_zero split: if_splits)

lemma freeSlotsCleared_cleanupAll:
  "freeSlotsCleared (outgoingPublishPackets (cleanupOutgoingPublishes st))"
  by (simp add: cleanupOutgoingPublishes_def freeSlotsCleared_def list_all_iff)

lemma freeSlotsCleared_cleanupWithPacketID_loop:
  "cleanupWithPacketID_loop pid k st = Inr st' \<Longrightarrow> freeSlotsCleared (outgoingPublishPackets st) \<Longrightarrow>
     freeSlotsCleared (outgoingPublishPackets st')"
proof (induction pid k st rule: cleanupWithPacketID_loop.induct)
  case (1 pid index st)
  from "1.prems" show ?case
    by (subst (asm) cleanupWithPacketID_loop.simps)
       (auto simp: "1.IH" split: if_splits dest: freeSlotsCleared_cleanupAt)
qed

lemma freeSlotsCleared_cleanupWithPacketID:
  "cleanupOutgoingPublishWithPacketID pid st = Inr st' \<Longrightarrow>
     freeSlotsCleared (outgoingPublishPackets st) \<Longrightarrow> freeSlotsCleared (outgoingPublishPackets st')"
  by (auto simp: cleanupOutgoingPublishWithPacketID_def split: if_splits
      dest: freeSlotsCleared_cleanupWithPacketID_loop)

lemma freeSlotsCleared_PublishToTopic:
  assumes run: "PublishToTopic env pTopicFilter topicFilterLength pPayloadArg payloadLengthArg st
                  = Inr (ok, st')"
    and newId: "packetIdSource env (packetIdsIssued st) \<noteq> MQTT_PACKET_ID_INVALID"
    and inv: "freeSlotsCleared (outgoingPublishPackets st)"
  shows "freeSlotsCleared (outgoingPublishPackets st')"
proof -
  from run have topic: "pTopicFilter \<noteq> None" "0 < topicFilterLength"
    by (auto simp: PublishToTopic_def split: if_splits)
  obtain b i where g: "getNextFreeIndexForOutgoingPublishes st MAX_OUTGOING_PUBLISHES = (b, i)"
    by (cases "getNextFreeIndexForOutgoingPublishes st MAX_OUTGOING_PUBLISHES")
  show ?thesis
  proof (cases b)
    case False
    with g run topic have "st' = st" by (simp add: PublishToTopic_def)
    with inv show ?thesis by simp
  next
    case True
    with g have found: "getNextFreeIndexForOutgoingPublishes st MAX_OUTGOING_PUBLISHES = (True, i)"
      by simp
    from run PublishToTopic_reserved [OF found topic, of env pPayloadArg payloadLengthArg]
    have "(\<exists>info. outgoingPublishPackets st' = (outgoingPublishPackets st)
              [i := (outgoingPublishPackets st ! i)
                 \<lparr>packetId := packetIdSource env (packetIdsIssued st), pubInfo := info\<rparr>]) \<or>
          outgoingPublishPackets st' = (outgoingPublishPackets st)[i := zeroPublishPackets]"
      by (auto simp: Let_def split: if_splits)
    then show ?thesis
    proof
      assume "\<exists>info. outgoingPublishPackets st' = (outgoingPublishPackets st)
              [i := (outgoingPublishPackets st ! i)
                 \<lparr>packetId := packetIdSource env (packetIdsIssued st), pubInfo := info\<rparr>]"
      then obtain info where t: "outgoingPublishPackets st' = (outgoingPublishPackets st)
              [i := (outgoingPublishPackets st ! i)
                 \<lparr>packetId := packetIdSource env (packetIdsIssued st), pubInfo := info\<rparr>]"
        by blast
      from inv have "freeSlotsCleared ((outgoingPublishPackets st)
              [i := (outgoingPublishPackets st ! i)
                 \<lparr>packetId := packetIdSource env (packetIdsIssued st), pubInfo := info\<rparr>])"
        by (rule freeSlotsCleared_update) (simp add: newId)
      with t show ?thesis by simp
    next
      assume "outgoingPublishPackets st' = (outgoingPublishPackets st)[i := zeroPublishPackets]"
      with inv show ?thesis by (simp add: freeSlotsCleared_zero)
    qed
  qed
qed

lemma freeSlotsCleared_markDuplicate:
  "freeSlotsCleared tbl \<Longrightarrow> isLive (tbl ! i) \<Longrightarrow> freeSlotsCleared (tbl[i := markDuplicate (tbl ! i)])"
  by (rule freeSlotsCleared_update) (simp_all add: markDuplicate_def isLive_def)

lemma freeSlotsCleared_handlePublishResend_loop:
  "freeSlotsCleared (outgoingPublishPackets st) \<Longrightarrow>
     freeSlotsCleared (outgoingPublishPackets (snd (handlePublishResend_loop env i st)))"
proof (induction "MAX_OUTGOING_PUBLISHES - i" arbitrary: i st)
  case 0
  then show ?case by (simp add: handlePublishResend_loop_done)
next
  case (Suc d)
  then have i: "i < MAX_OUTGOING_PUBLISHES" and d: "d = MAX_OUTGOING_PUBLISHES - (i + 1)"
    by simp_all
  show ?case
  proof (cases "isLive (outgoingPublishPackets st ! i)")
    case False
    with i Suc.hyps(1) [OF d Suc.prems] show ?thesis
      by (simp add: handlePublishResend_loop_free)
  next
    case True
    let ?st2 = "st\<lparr>outgoingPublishPackets :=
                       (outgoingPublishPackets st)[i := markDuplicate (outgoingPublishPackets st ! i)],
                     publishLog := publishLog st @ [resendOf (outgoingPublishPackets st ! i)]\<rparr>"
    from Suc.prems True have inv2: "freeSlotsCleared (outgoingPublishPackets ?st2)"
      by (simp add: freeSlotsCleared_markDuplicate)
    from Suc.hyps(1) [OF d inv2] inv2 i True show ?thesis
      by (simp add: handlePublishResend_loop_live Let_def)
  qed
qed

lemma freeSlotsCleared_mqttCallback:
  "mqttCallback pPacketInfo pDeserializedInfo st = Inr st' \<Longrightarrow>
     freeSlotsCleared (outgoingPublishPackets st) \<Longrightarrow> freeSlotsCleared (outgoingPublishPackets st')"
  by (auto simp: mqttCallback_def Let_def split: if_splits option.splits
      dest: freeSlotsCleared_cleanupWithPacketID)

lemma freeSlotsCleared_EstablishMqttSession:
  assumes "freeSlotsCleared (outgoingPublishPackets st)"
  shows "freeSlotsCleared (outgoingPublishPackets (snd (EstablishMqttSession env publishCallback st)))"
proof -
  obtain b st1 where c: "connectToBrokerWithBackoffRetries env st = (b, st1)"
    by (cases "connectToBrokerWithBackoffRetries env st")
  with connectToBroker_keeps [of env st] assms
  have inv1: "freeSlotsCleared (outgoingPublishPackets st1)" by simp
  have r: "freeSlotsCleared (outgoingPublishPackets (snd (handlePublishResend env s)))"
    if "freeSlotsCleared (outgoingPublishPackets s)" for s
    using freeSlotsCleared_handlePublishResend_loop [OF that, of env 0]
    by (auto simp: handlePublishResend_def split: prod.splits)
  from c inv1 show ?thesis
    by (simp add: EstablishMqttSession_def Let_def r freeSlotsCleared_cleanupAll)
qed

end
